theory Spec2Isabelle
  imports Complex_Main "HOL-Library.Log_Nat"
begin

section \<open>Python floats\<close>

text \<open>
  The prices of \<^verbatim>\<open>src/main.py\<close> are Python floats: IEEE-754 binary64 numbers.  A finite
  double is modelled by the rational number it denotes.  Every arithmetic operation of the
  source computes the exact result and rounds it to the nearest number with a 53-bit
  significand, ties to the even significand.  The exponent range of binary64 is left
  unbounded: every number the builder computes is zero or lies between \<open>1/8\<close> and \<open>2048\<close>,
  far from overflow and from the subnormal range.
\<close>

type_synonym double = rat

text \<open>\<open>ilog2 x\<close> is the binary exponent \<open>e\<close> of \<open>x \<noteq> 0\<close>: \<open>2 powi e \<le> \<bar>x\<bar> < 2 powi (e + 1)\<close>.\<close>

definition ilog2 :: "rat \<Rightarrow> int" where
  "ilog2 x = (let (p, q) = quotient_of x;
                  b = int (floorlog 2 (nat \<bar>p\<bar>)) - int (floorlog 2 (nat q))
              in if 2 powi b \<le> \<bar>x\<bar> then b else b - 1)"

definition round_half_even :: "rat \<Rightarrow> int" where
  "round_half_even r = (let f = \<lfloor>r\<rfloor>; d = r - of_int f
     in if d < 1/2 then f else if 1/2 < d then f + 1 else if even f then f else f + 1)"

text \<open>Rounding of an exact value to binary64, round-to-nearest, ties-to-even.\<close>

definition rne :: "rat \<Rightarrow> double" where
  "rne x = (if x = 0 then 0
            else let q = 2 powi (ilog2 x - 52) in of_int (round_half_even (x / q)) * q)"

text \<open>Float addition and multiplication (\<^verbatim>\<open>a + b\<close>, \<^verbatim>\<open>a * b\<close> on floats).\<close>

definition fadd :: "double \<Rightarrow> double \<Rightarrow> double" where
  "fadd x y = rne (x + y)"

definition fmul :: "double \<Rightarrow> double \<Rightarrow> double" where
  "fmul x y = rne (x * y)"

definition fsub :: "double \<Rightarrow> double \<Rightarrow> double" where
  "fsub x y = rne (x - y)"

text \<open>
  A float literal with the decimal digits \<open>m\<close> and \<open>k\<close> digits after the point, such as
  \<^verbatim>\<open>1.2\<close> (\<open>float_lit 12 1\<close>), denotes the double nearest to \<open>m / 10 ^ k\<close>.
\<close>

definition float_lit :: "int \<Rightarrow> nat \<Rightarrow> double" where
  "float_lit m k = rne (of_int m / 10 ^ k)"

text \<open>The conversion of a Python int that takes part in float arithmetic (\<^verbatim>\<open>n * 40.0\<close>).\<close>

definition float_of_int :: "int \<Rightarrow> double" where
  "float_of_int n = rne (of_int n)"

text \<open>
  \<^verbatim>\<open>round(x, ndigits)\<close> on a float: CPython rounds the exact value of \<open>x\<close> to \<open>ndigits\<close>
  decimal places, half to even, and returns the double nearest to that decimal number.
\<close>

definition py_round :: "double \<Rightarrow> nat \<Rightarrow> double" where
  "py_round x ndigits = rne (of_int (round_half_even (x * 10 ^ ndigits)) / 10 ^ ndigits)"

section \<open>Strings\<close>

text \<open>\<^verbatim>\<open>str(n)\<close> for an int, as the f-strings of the description use it.\<close>

fun str_nat :: "nat \<Rightarrow> string" where
  "str_nat n = (if n < 10 then [''0123456789'' ! n]
                else str_nat (n div 10) @ [''0123456789'' ! (n mod 10)])"

definition str_int :: "int \<Rightarrow> string" where
  "str_int i = (if i < 0 then ''-'' @ str_nat (nat (- i)) else str_nat (nat i))"

text \<open>\<^verbatim>\<open>sep.join(parts)\<close>.\<close>

fun join :: "string \<Rightarrow> string list \<Rightarrow> string" where
  "join sep [] = []"
| "join sep [x] = x"
| "join sep (x # y # ys) = x @ sep @ join sep (y # ys)"

section \<open>Errors\<close>

text \<open>
  Every failure of the builder is a \<^verbatim>\<open>ValueError\<close> that differs from the others in its
  message only.  The messages of the source are Russian sentences; each is modelled by a
  constructor, in the order of the source:
  \<^item> \<open>Invalid_base b\<close>, \<open>Invalid_size z\<close>, \<open>Invalid_milk m\<close>: "inadmissible base / size / milk",
    followed by the offending name;
  \<^item> \<open>Syrup_limit\<close>: "the syrup limit is exceeded";
  \<^item> \<open>Sugar_range\<close>: "sugar must be in the range 0..5";
  \<^item> \<open>Negative_shots\<close>: "the number of shots cannot be negative";
  \<^item> \<open>Shot_limit\<close>: "the shot limit is exceeded";
  \<^item> \<open>Base_required\<close>: "base is mandatory"; \<open>Size_required\<close>: "size is mandatory".

  A dictionary lookup with a missing key raises \<^verbatim>\<open>KeyError\<close>, a failing \<^verbatim>\<open>assert\<close>
  raises \<^verbatim>\<open>AssertionError\<close>.
\<close>

datatype message =
    Invalid_base string
  | Invalid_size string
  | Invalid_milk string
  | Syrup_limit
  | Sugar_range
  | Negative_shots
  | Shot_limit
  | Base_required
  | Size_required

datatype error = ValueError message | KeyError string | AssertionError

section \<open>The order and the builder\<close>

text \<open>
  The frozen dataclass \<^verbatim>\<open>CoffeeOrder\<close>.  Its fields carry the prefix \<open>o_\<close>, the private
  fields \<^verbatim>\<open>_base\<close>, \<^verbatim>\<open>_size\<close>, ... of the builder the prefix \<open>b_\<close>.
\<close>

record CoffeeOrder =
  o_base :: string
  o_size :: string
  o_milk :: string
  o_syrups :: "string list"
  o_sugar :: int
  o_iced :: bool
  o_price :: double
  o_description :: string
  o_extra_shots :: int

record CoffeeOrderBuilder =
  b_base :: "string option"
  b_size :: "string option"
  b_milk :: string
  b_syrups :: "string list"
  b_sugar :: int
  b_iced :: bool
  b_shots :: int

text \<open>The class attributes.  A dictionary literal is the list of its items, in order.\<close>

definition BASE_PRICES :: "(string \<times> double) list" where
  "BASE_PRICES =
     [(''espresso'', float_lit 2000 1),
      (''americano'', float_lit 2500 1),
      (''latte'', float_lit 3000 1),
      (''cappuccino'', float_lit 3200 1)]"

definition SIZE_MULTIPLIERS :: "(string \<times> double) list" where
  "SIZE_MULTIPLIERS =
     [(''small'', float_lit 10 1), (''medium'', float_lit 12 1), (''large'', float_lit 14 1)]"

definition MILK_SURCHARGES :: "(string \<times> double) list" where
  "MILK_SURCHARGES =
     [(''none'', float_lit 0 1), (''whole'', float_lit 300 1), (''skim'', float_lit 300 1),
      (''oat'', float_lit 600 1), (''soy'', float_lit 500 1)]"

definition SYRUP_PRICE :: double where "SYRUP_PRICE = float_lit 400 1"
definition SHOT_PRICE :: double where "SHOT_PRICE = float_lit 700 1"
definition ICED_RATE :: double where "ICED_RATE = float_lit 2 1"

definition MAX_SYRUPS :: nat where "MAX_SYRUPS = 4"
definition MAX_SUGAR :: int where "MAX_SUGAR = 5"
definition MAX_SHOTS :: int where "MAX_SHOTS = 3"

definition DEFAULT_MILK :: string where "DEFAULT_MILK = ''none''"

text \<open>\<^verbatim>\<open>d[k]\<close>: the value of the key, or \<^verbatim>\<open>KeyError\<close>.\<close>

definition subscript :: "(string \<times> 'v) list \<Rightarrow> string \<Rightarrow> error + 'v" where
  "subscript d k = (case map_of d k of None \<Rightarrow> Inl (KeyError k) | Some v \<Rightarrow> Inr v)"

subsection \<open>Methods as state transformers with exceptions\<close>

text \<open>
  Every method runs on the builder object and either returns a value or raises; in both cases
  it leaves the builder in some state.  The state after a raise is part of the result, so
  that a mutation made before a raise would be visible.
\<close>

type_synonym 'a action = "CoffeeOrderBuilder \<Rightarrow> (error + 'a) \<times> CoffeeOrderBuilder"

definition return :: "'a \<Rightarrow> 'a action" where
  "return x = (\<lambda>s. (Inr x, s))"

definition raise :: "error \<Rightarrow> 'a action" where
  "raise e = (\<lambda>s. (Inl e, s))"

definition bind :: "'a action \<Rightarrow> ('a \<Rightarrow> 'b action) \<Rightarrow> 'b action" where
  "bind m f = (\<lambda>s. case m s of (Inl e, s') \<Rightarrow> (Inl e, s') | (Inr x, s') \<Rightarrow> f x s')"

definition seq :: "unit action \<Rightarrow> 'b action \<Rightarrow> 'b action" where
  "seq m n = bind m (\<lambda>_. n)"

text \<open>Reading a field of \<^verbatim>\<open>self\<close>, assigning to fields of \<^verbatim>\<open>self\<close>.\<close>

definition read :: "(CoffeeOrderBuilder \<Rightarrow> 'a) \<Rightarrow> 'a action" where
  "read f = (\<lambda>s. (Inr (f s), s))"

definition assign :: "(CoffeeOrderBuilder \<Rightarrow> CoffeeOrderBuilder) \<Rightarrow> unit action" where
  "assign f = (\<lambda>s. (Inr (), f s))"

text \<open>\<^verbatim>\<open>if c: raise e\<close>.\<close>

definition raise_if :: "bool \<Rightarrow> error \<Rightarrow> unit action" where
  "raise_if c e = (if c then raise e else return ())"

text \<open>The call of a helper that reads \<^verbatim>\<open>self\<close> and returns a value or raises.\<close>

definition helper :: "(CoffeeOrderBuilder \<Rightarrow> error + 'a) \<Rightarrow> 'a action" where
  "helper f = (\<lambda>s. case f s of Inl e \<Rightarrow> raise e s | Inr x \<Rightarrow> return x s)"

subsection \<open>The builder\<close>

text \<open>\<^verbatim>\<open>__init__\<close>.\<close>

definition init :: CoffeeOrderBuilder where
  "init = \<lparr>b_base = None, b_size = None, b_milk = DEFAULT_MILK, b_syrups = [],
           b_sugar = 0, b_iced = False, b_shots = 0\<rparr>"

text \<open>The fluent setters return \<^verbatim>\<open>self\<close>; the model returns \<open>()\<close>.\<close>

definition set_base :: "string \<Rightarrow> unit action" where
  "set_base base =
     seq (raise_if (map_of BASE_PRICES base = None) (ValueError (Invalid_base base)))
         (assign (\<lambda>s. s\<lparr>b_base := Some base\<rparr>))"

definition set_size :: "string \<Rightarrow> unit action" where
  "set_size size' =
     seq (raise_if (map_of SIZE_MULTIPLIERS size' = None) (ValueError (Invalid_size size')))
         (assign (\<lambda>s. s\<lparr>b_size := Some size'\<rparr>))"

definition set_milk :: "string \<Rightarrow> unit action" where
  "set_milk milk =
     seq (raise_if (map_of MILK_SURCHARGES milk = None) (ValueError (Invalid_milk milk)))
         (assign (\<lambda>s. s\<lparr>b_milk := milk\<rparr>))"

definition add_syrup :: "string \<Rightarrow> unit action" where
  "add_syrup name =
     bind (read b_syrups) (\<lambda>syrups.
       if name \<notin> set syrups then
         seq (raise_if (length syrups \<ge> MAX_SYRUPS) (ValueError Syrup_limit))
             (assign (\<lambda>s. s\<lparr>b_syrups := b_syrups s @ [name]\<rparr>))
       else return ())"

definition set_sugar :: "int \<Rightarrow> unit action" where
  "set_sugar teaspoons =
     seq (raise_if (\<not> (0 \<le> teaspoons \<and> teaspoons \<le> MAX_SUGAR)) (ValueError Sugar_range))
         (assign (\<lambda>s. s\<lparr>b_sugar := teaspoons\<rparr>))"

definition add_shot :: "int \<Rightarrow> unit action" where
  "add_shot count =
     seq (raise_if (count < 0) (ValueError Negative_shots))
         (bind (read b_shots) (\<lambda>shots.
            let new_total = shots + count in
            seq (raise_if (new_total > MAX_SHOTS) (ValueError Shot_limit))
                (assign (\<lambda>s. s\<lparr>b_shots := new_total\<rparr>))))"

text \<open>\<^verbatim>\<open>add_shot()\<close> with the default \<^verbatim>\<open>count = 1\<close>.\<close>

definition add_shot_default :: "unit action" where
  "add_shot_default = add_shot 1"

definition set_iced :: "bool \<Rightarrow> unit action" where
  "set_iced iced = assign (\<lambda>s. s\<lparr>b_iced := iced\<rparr>)"

definition clear_extras :: "unit action" where
  "clear_extras =
     seq (assign (\<lambda>s. s\<lparr>b_milk := DEFAULT_MILK\<rparr>))
    (seq (assign (\<lambda>s. s\<lparr>b_syrups := []\<rparr>))
    (seq (assign (\<lambda>s. s\<lparr>b_sugar := 0\<rparr>))
    (seq (assign (\<lambda>s. s\<lparr>b_shots := 0\<rparr>))
         (assign (\<lambda>s. s\<lparr>b_iced := False\<rparr>)))))"

text \<open>
  The build helpers only read the builder, so they are functions of its state.
\<close>

definition calc_price :: "CoffeeOrderBuilder \<Rightarrow> error + double" where
  "calc_price s =
     (case b_base s of None \<Rightarrow> Inl AssertionError | Some base \<Rightarrow>
      case b_size s of None \<Rightarrow> Inl AssertionError | Some size' \<Rightarrow>
      case subscript BASE_PRICES base of Inl e \<Rightarrow> Inl e | Inr base_price \<Rightarrow>
      case subscript SIZE_MULTIPLIERS size' of Inl e \<Rightarrow> Inl e | Inr multiplier \<Rightarrow>
      let base_cost = fmul base_price multiplier in
      case subscript MILK_SURCHARGES (b_milk s) of Inl e \<Rightarrow> Inl e | Inr milk_cost \<Rightarrow>
      let syrup_cost = fmul (float_of_int (int (length (b_syrups s)))) SYRUP_PRICE;
          shots_cost = fmul (float_of_int (b_shots s)) SHOT_PRICE;
          subtotal = fadd (fadd (fadd base_cost milk_cost) syrup_cost) shots_cost;
          subtotal = (if b_iced s then fadd subtotal (fmul base_cost ICED_RATE) else subtotal)
      in Inr (py_round subtotal 2))"

definition build_description :: "CoffeeOrderBuilder \<Rightarrow> error + string" where
  "build_description s =
     (case b_base s of None \<Rightarrow> Inl AssertionError | Some base \<Rightarrow>
      case b_size s of None \<Rightarrow> Inl AssertionError | Some size' \<Rightarrow>
      let parts = [size' @ '' '' @ base];
          parts = (if b_milk s \<noteq> DEFAULT_MILK
                   then parts @ [''with '' @ b_milk s @ '' milk''] else parts);
          parts = (if b_syrups s \<noteq> []
                   then parts @ [''+'' @ join '','' (b_syrups s) @ '' syrup''] else parts);
          parts = (if b_iced s then parts @ [''(iced)''] else parts);
          parts = (if b_sugar s \<noteq> 0
                   then parts @ [str_int (b_sugar s) @ '' tsp sugar''] else parts);
          parts = (if b_shots s \<noteq> 0
                   then parts @ [''+'' @ str_int (b_shots s) @ '' extra shot(s)''] else parts)
      in Inr (join '' '' parts))"

definition build :: "CoffeeOrder action" where
  "build =
     bind (read b_base) (\<lambda>base. case base of
       None \<Rightarrow> raise (ValueError Base_required)
     | Some base \<Rightarrow>
     bind (read b_size) (\<lambda>size'. case size' of
       None \<Rightarrow> raise (ValueError Size_required)
     | Some size' \<Rightarrow>
     bind (read b_syrups) (\<lambda>syrups_tuple.
     bind (helper calc_price) (\<lambda>price.
     bind (helper build_description) (\<lambda>description.
     bind (read id) (\<lambda>s.
       return \<lparr>o_base = base, o_size = size', o_milk = b_milk s, o_syrups = syrups_tuple,
               o_sugar = b_sugar s, o_iced = b_iced s, o_price = price,
               o_description = description, o_extra_shots = b_shots s\<rparr>))))))"

subsection \<open>Calls, and the objects they create\<close>

text \<open>One call of a method of the builder, with its arguments.\<close>

datatype operation =
    Set_base string
  | Set_size string
  | Set_milk string
  | Add_syrup string
  | Set_sugar int
  | Add_shot int
  | Set_iced bool
  | Clear_extras
  | Build

text \<open>What a call returns: the builder itself, or the order it built.\<close>

datatype outcome = Self | Built CoffeeOrder

definition returning_self :: "unit action \<Rightarrow> outcome action" where
  "returning_self m = bind m (\<lambda>_. return Self)"

fun call :: "operation \<Rightarrow> outcome action" where
  "call (Set_base b) = returning_self (set_base b)"
| "call (Set_size z) = returning_self (set_size z)"
| "call (Set_milk m) = returning_self (set_milk m)"
| "call (Add_syrup n) = returning_self (add_syrup n)"
| "call (Set_sugar t) = returning_self (set_sugar t)"
| "call (Add_shot c) = returning_self (add_shot c)"
| "call (Set_iced i) = returning_self (set_iced i)"
| "call Clear_extras = returning_self clear_extras"
| "call Build = bind build (\<lambda>ord. return (Built ord))"

text \<open>The builder after a sequence of calls, whether they succeed or raise.\<close>

fun calls :: "operation list \<Rightarrow> CoffeeOrderBuilder \<Rightarrow> CoffeeOrderBuilder" where
  "calls [] s = s"
| "calls (c # cs) s = calls cs (snd (call c s))"

text \<open>The states a builder can be in: those a fresh builder reaches by calls.\<close>

inductive reachable :: "CoffeeOrderBuilder \<Rightarrow> bool" where
  fresh: "reachable init"
| step: "reachable s \<Longrightarrow> reachable (snd (call c s))"

text \<open>
  Object identity.  \<^verbatim>\<open>CoffeeOrder(...)\<close> creates a new object; the store holds the orders
  created so far, and the reference to an order is its index.  Orders are frozen and hold
  immutable values only (the syrups are copied into a tuple), so no call writes to an
  existing cell.  The builder's own list of syrups is never handed out, so it needs no
  cell of its own.
\<close>

record world =
  builder :: CoffeeOrderBuilder
  store :: "CoffeeOrder list"

datatype reference = Self_ref | Order_ref nat

definition run :: "operation \<Rightarrow> world \<Rightarrow> (error + reference) \<times> world" where
  "run c w =
     (case call c (builder w) of
        (Inl e, s') \<Rightarrow> (Inl e, w\<lparr>builder := s'\<rparr>)
      | (Inr Self, s') \<Rightarrow> (Inr Self_ref, w\<lparr>builder := s'\<rparr>)
      | (Inr (Built ord), s') \<Rightarrow>
          (Inr (Order_ref (length (store w))), \<lparr>builder = s', store = store w @ [ord]\<rparr>))"

section \<open>The specification's reading\<close>

text \<open>The failure taxonomy of the specification, and the class of each message.\<close>

datatype failure = InvalidChoice | LimitExceeded | OutOfRange | InvalidArgument | MissingField

fun failure_of :: "error \<Rightarrow> failure option" where
  "failure_of (ValueError (Invalid_base _)) = Some InvalidChoice"
| "failure_of (ValueError (Invalid_size _)) = Some InvalidChoice"
| "failure_of (ValueError (Invalid_milk _)) = Some InvalidChoice"
| "failure_of (ValueError Syrup_limit) = Some LimitExceeded"
| "failure_of (ValueError Shot_limit) = Some LimitExceeded"
| "failure_of (ValueError Sugar_range) = Some OutOfRange"
| "failure_of (ValueError Negative_shots) = Some InvalidArgument"
| "failure_of (ValueError Base_required) = Some MissingField"
| "failure_of (ValueError Size_required) = Some MissingField"
| "failure_of _ = None"

text \<open>
  The catalogs of the specification, as exact decimal numbers, and its price algorithm in
  exact arithmetic, with one rounding to two decimal places at the end.
\<close>

definition basePrice :: "string \<Rightarrow> rat" where
  "basePrice b = (if b = ''espresso'' then 200 else if b = ''americano'' then 250
                  else if b = ''latte'' then 300 else if b = ''cappuccino'' then 320 else 0)"

definition sizeMultiplier :: "string \<Rightarrow> rat" where
  "sizeMultiplier z = (if z = ''small'' then 1 else if z = ''medium'' then 12 / 10
                       else if z = ''large'' then 14 / 10 else 0)"

definition milkSurcharge :: "string \<Rightarrow> rat" where
  "milkSurcharge m = (if m = ''whole'' then 30 else if m = ''skim'' then 30
                      else if m = ''oat'' then 60 else if m = ''soy'' then 50 else 0)"

definition round2 :: "rat \<Rightarrow> rat" where
  "round2 x = of_int (round_half_even (x * 100)) / 100"

definition spec_subtotal :: "CoffeeOrderBuilder \<Rightarrow> rat" where
  "spec_subtotal s =
     (let baseCost = basePrice (the (b_base s)) * sizeMultiplier (the (b_size s)) in
      baseCost + milkSurcharge (b_milk s) + 40 * of_nat (length (b_syrups s))
      + 70 * of_int (b_shots s) + (if b_iced s then (20 / 100) * baseCost else 0))"

definition spec_price :: "CoffeeOrderBuilder \<Rightarrow> rat" where
  "spec_price s = round2 (spec_subtotal s)"

text \<open>The description algorithm of the specification: the clauses whose condition holds.\<close>

definition spec_clauses :: "CoffeeOrderBuilder \<Rightarrow> (bool \<times> string) list" where
  "spec_clauses s =
     [(True, the (b_size s) @ '' '' @ the (b_base s)),
      (b_milk s \<noteq> ''none'', ''with '' @ b_milk s @ '' milk''),
      (b_syrups s \<noteq> [], ''+'' @ join '','' (b_syrups s) @ '' syrup''),
      (b_iced s, ''(iced)''),
      (b_sugar s > 0, str_int (b_sugar s) @ '' tsp sugar''),
      (b_shots s > 0, ''+'' @ str_int (b_shots s) @ '' extra shot(s)'')]"

definition spec_description :: "CoffeeOrderBuilder \<Rightarrow> string" where
  "spec_description s = join '' '' (map snd (filter fst (spec_clauses s)))"

text \<open>The bounds the specification states for the builder and for every order.\<close>

definition bounds :: "string list \<Rightarrow> int \<Rightarrow> int \<Rightarrow> bool" where
  "bounds syrups sugar shots \<longleftrightarrow>
     distinct syrups \<and> length syrups \<le> 4 \<and> 0 \<le> sugar \<and> sugar \<le> 5 \<and> 0 \<le> shots \<and> shots \<le> 3"

text \<open>
  The invariant of the builder: the bounds, and every choice taken from its catalog.
\<close>

definition invariant :: "CoffeeOrderBuilder \<Rightarrow> bool" where
  "invariant s \<longleftrightarrow>
     bounds (b_syrups s) (b_sugar s) (b_shots s)
     \<and> (case b_base s of None \<Rightarrow> True | Some b \<Rightarrow> map_of BASE_PRICES b \<noteq> None)
     \<and> (case b_size s of None \<Rightarrow> True | Some z \<Rightarrow> map_of SIZE_MULTIPLIERS z \<noteq> None)
     \<and> map_of MILK_SURCHARGES (b_milk s) \<noteq> None"

text \<open>The builder states of the end-to-end example and of the self-check of the source.\<close>

definition example_calls :: "operation list" where
  "example_calls =
     [Set_base ''espresso'', Set_size ''medium'', Set_milk ''oat'', Add_syrup ''vanilla'',
      Add_syrup ''caramel'', Set_sugar 2, Add_shot 1, Set_iced True]"

definition example :: CoffeeOrderBuilder where
  "example = \<lparr>b_base = Some ''espresso'', b_size = Some ''medium'', b_milk = ''oat'',
              b_syrups = [''vanilla'', ''caramel''], b_sugar = 2, b_iced = True, b_shots = 1\<rparr>"

text \<open>The order that \<^verbatim>\<open>build()\<close> returns in a state, if it returns one.\<close>

definition built :: "CoffeeOrderBuilder \<Rightarrow> CoffeeOrder option" where
  "built s = (case fst (build s) of Inl _ \<Rightarrow> None | Inr ord \<Rightarrow> Some ord)"

text \<open>A large cappuccino without extras, hot and iced.\<close>

definition cappuccino_large :: "bool \<Rightarrow> CoffeeOrderBuilder" where
  "cappuccino_large iced = \<lparr>b_base = Some ''cappuccino'', b_size = Some ''large'',
     b_milk = ''none'', b_syrups = [], b_sugar = 0, b_iced = iced, b_shots = 0\<rparr>"

text \<open>The world after a call, whether it returns or raises.\<close>

definition after :: "operation \<Rightarrow> world \<Rightarrow> world" where
  "after c w = snd (run c w)"

text \<open>
  The fields of an order that a call between two builds affects: the field that the call
  sets, and the price and the description that are derived from it (the price does not
  depend on the sugar).  \<open>only_affected c first second\<close> says that the second order differs
  from the first in these fields at most.
\<close>

definition only_affected :: "operation \<Rightarrow> CoffeeOrder \<Rightarrow> CoffeeOrder \<Rightarrow> bool" where
  "only_affected c first second =
     (case c of
        Set_base _ \<Rightarrow> second = first\<lparr>o_base := o_base second, o_price := o_price second,
                                     o_description := o_description second\<rparr>
      | Set_size _ \<Rightarrow> second = first\<lparr>o_size := o_size second, o_price := o_price second,
                                     o_description := o_description second\<rparr>
      | Set_milk _ \<Rightarrow> second = first\<lparr>o_milk := o_milk second, o_price := o_price second,
                                     o_description := o_description second\<rparr>
      | Add_syrup _ \<Rightarrow> second = first\<lparr>o_syrups := o_syrups second, o_price := o_price second,
                                      o_description := o_description second\<rparr>
      | Set_sugar _ \<Rightarrow> second = first\<lparr>o_sugar := o_sugar second,
                                      o_description := o_description second\<rparr>
      | Add_shot _ \<Rightarrow> second = first\<lparr>o_extra_shots := o_extra_shots second,
                                     o_price := o_price second,
                                     o_description := o_description second\<rparr>
      | Set_iced _ \<Rightarrow> second = first\<lparr>o_iced := o_iced second, o_price := o_price second,
                                     o_description := o_description second\<rparr>
      | Clear_extras \<Rightarrow> o_base second = o_base first \<and> o_size second = o_size first
      | Build \<Rightarrow> second = first)"

section \<open>Rounding to a double\<close>

lemma floorlog_powi_bounds:
  assumes "0 < n"
  shows "(2::rat) powi (int (floorlog 2 n) - 1) \<le> of_nat n" "of_nat n < (2::rat) powi (int (floorlog 2 n))"
proof -
  have ab: "2 ^ (floorlog 2 n - 1) \<le> n \<and> n < 2 ^ floorlog 2 n"
    by (rule floorlog_bounds) (use assms in simp_all)
  have a: "2 ^ (floorlog 2 n - 1) \<le> n" and b: "n < 2 ^ floorlog 2 n"
    using ab by blast+
  have "floorlog 2 n \<noteq> 0" using assms by (simp add: floorlog_eq_zero_iff)
  then have pos: "0 < floorlog 2 n" by blast
  have eq: "int (floorlog 2 n) - 1 = int (floorlog 2 n - 1)" using pos by simp
  have "(2::rat) powi (int (floorlog 2 n) - 1) = 2 ^ (floorlog 2 n - 1)"
    by (simp only: eq power_int_of_nat)
  also have "\<dots> = of_nat (2 ^ (floorlog 2 n - 1))" by simp
  also have "\<dots> \<le> of_nat n" using a by (simp only: of_nat_le_iff)
  finally show "(2::rat) powi (int (floorlog 2 n) - 1) \<le> of_nat n" .
  have "(of_nat n :: rat) < of_nat (2 ^ floorlog 2 n)" using b by (simp only: of_nat_less_iff)
  then show "of_nat n < (2::rat) powi (int (floorlog 2 n))" by simp
qed

lemma ilog2_bounds:
  assumes "x \<noteq> 0"
  shows "2 powi ilog2 x \<le> \<bar>x\<bar>" "\<bar>x\<bar> < 2 powi (ilog2 x + 1)"
proof -
  obtain p q where pq: "quotient_of x = (p, q)" by (cases "quotient_of x")
  then have q: "0 < q" and x: "x = of_int p / of_int q"
    using quotient_of_denom_pos quotient_of_div by auto
  have p: "p \<noteq> 0" using x assms by auto
  define bp where "bp = int (floorlog 2 (nat \<bar>p\<bar>))"
  define bq where "bq = int (floorlog 2 (nat q))"
  have P: "(2::rat) powi (bp - 1) \<le> of_int \<bar>p\<bar>" "of_int \<bar>p\<bar> < (2::rat) powi bp"
    using floorlog_powi_bounds[of "nat \<bar>p\<bar>"] p by (auto simp: bp_def)
  have Q: "(2::rat) powi (bq - 1) \<le> of_int q" "of_int q < (2::rat) powi bq"
    using floorlog_powi_bounds[of "nat q"] q by (auto simp: bq_def)
  have ax: "\<bar>x\<bar> = of_int \<bar>p\<bar> / of_int q" using q by (simp add: x)
  have qpos: "(0::rat) < of_int q" using q by simp
  have up: "\<bar>x\<bar> < 2 powi (bp - bq + 1)"
  proof -
    have "\<bar>x\<bar> < 2 powi bp / of_int q" unfolding ax using P(2) qpos by (simp add: divide_strict_right_mono)
    also have "\<dots> \<le> 2 powi bp / 2 powi (bq - 1)" using Q(1) by (simp add: frac_le)
    also have "\<dots> = 2 powi (bp - bq + 1)" by (simp add: power_int_diff power_int_add)
    finally show ?thesis .
  qed
  have lo: "2 powi (bp - bq - 1) \<le> \<bar>x\<bar>"
  proof -
    have "(2::rat) powi (bp - bq - 1) = 2 powi (bp - 1) / 2 powi bq" by (simp add: power_int_diff)
    also have "\<dots> \<le> of_int \<bar>p\<bar> / 2 powi bq" using P(1) by (simp add: divide_right_mono)
    also have "\<dots> \<le> of_int \<bar>p\<bar> / of_int q" using Q(2) qpos by (intro divide_left_mono) (auto simp: less_imp_le)
    finally show ?thesis unfolding ax .
  qed
  have il: "ilog2 x = (if 2 powi (bp - bq) \<le> \<bar>x\<bar> then bp - bq else bp - bq - 1)"
    by (simp add: ilog2_def pq bp_def bq_def Let_def)
  show "2 powi ilog2 x \<le> \<bar>x\<bar>" using lo by (simp add: il)
  show "\<bar>x\<bar> < 2 powi (ilog2 x + 1)" using up by (simp add: il not_le)
qed

lemma ilog2_unique:
  assumes "2 powi e \<le> \<bar>x\<bar>" "\<bar>x\<bar> < 2 powi (e + 1)"
  shows "ilog2 x = e"
proof -
  have "(0::rat) < 2 powi e" by simp
  then have "0 < \<bar>x\<bar>" using assms(1) by (rule less_le_trans)
  then have x: "x \<noteq> 0" by simp
  note b = ilog2_bounds[OF x]
  have 1: "e < ilog2 x + 1"
  proof (rule ccontr)
    assume "\<not> e < ilog2 x + 1"
    then have "(2::rat) powi (ilog2 x + 1) \<le> 2 powi e" by (intro power_int_increasing) auto
    with assms(1) b(2) show False by linarith
  qed
  have 2: "ilog2 x < e + 1"
  proof (rule ccontr)
    assume "\<not> ilog2 x < e + 1"
    then have "(2::rat) powi (e + 1) \<le> 2 powi ilog2 x" by (intro power_int_increasing) auto
    with assms(2) b(1) show False by linarith
  qed
  from 1 2 show ?thesis by simp
qed


lemma round_half_even_close: "\<bar>of_int (round_half_even r) - r\<bar> \<le> 1/2"
  unfolding round_half_even_def Let_def by (auto simp: abs_if) linarith+

lemma round_half_even_eqI:
  assumes "\<bar>r - of_int n\<bar> < 1/2"
  shows "round_half_even r = n"
proof -
  have "\<lfloor>r\<rfloor> = n \<or> \<lfloor>r\<rfloor> = n - 1" using assms by (auto simp: abs_if split: if_splits) linarith+
  then show ?thesis
    using assms unfolding round_half_even_def Let_def
    by (auto simp: abs_if split: if_splits)
qed

lemma round_half_even_of_int [simp]: "round_half_even (of_int n) = n"
  by (rule round_half_even_eqI) simp

lemma round_half_even_tie:
  "round_half_even (of_int n + 1/2) = (if even n then n else n + 1)"
proof -
  have "\<lfloor>of_int n + (1/2::rat)\<rfloor> = n" by linarith
  then show ?thesis by (simp add: round_half_even_def Let_def)
qed

lemma rne_eval:
  assumes "2 powi e \<le> \<bar>x\<bar>" "\<bar>x\<bar> < 2 powi (e + 1)"
  shows "rne x = of_int (round_half_even (x / 2 powi (e - 52))) * 2 powi (e - 52)"
proof -
  have "(0::rat) < 2 powi e" by simp
  then have "0 < \<bar>x\<bar>" using assms(1) by (rule less_le_trans)
  then have x: "x \<noteq> 0" by simp
  show ?thesis using x by (simp add: rne_def Let_def ilog2_unique[OF assms])
qed

lemma rne_error:
  "\<bar>rne x - x\<bar> \<le> \<bar>x\<bar> / 2 ^ 53"
proof (cases "x = 0")
  case True then show ?thesis by (simp add: rne_def)
next
  case False
  define q :: rat where "q = 2 powi (ilog2 x - 52)"
  have q: "0 < q" by (simp add: q_def)
  have "rne x - x = (of_int (round_half_even (x / q)) - x / q) * q"
    using False q by (simp add: rne_def Let_def q_def algebra_simps)
  then have "\<bar>rne x - x\<bar> = \<bar>of_int (round_half_even (x / q)) - x / q\<bar> * q"
    using q by (simp add: abs_mult)
  also have "\<dots> \<le> (1/2) * q" using round_half_even_close[of "x / q"] q by (intro mult_right_mono) auto
  also have "\<dots> = 2 powi ilog2 x / 2 ^ 53" by (simp add: q_def power_int_diff)
  also have "\<dots> \<le> \<bar>x\<bar> / 2 ^ 53" using ilog2_bounds(1)[OF False] by (simp add: divide_right_mono)
  finally show ?thesis .
qed

lemma rne_eqI:
  assumes "2 powi e \<le> \<bar>x\<bar>" "\<bar>x\<bar> < 2 powi (e + 1)"
    and "\<bar>x / 2 powi (e - 52) - of_int n\<bar> < 1/2"
    and "y = of_int n * 2 powi (e - 52)"
  shows "rne x = y"
  using rne_eval[OF assms(1,2)] round_half_even_eqI[OF assms(3)] assms(4) by simp

lemma rne_tieI:
  assumes "2 powi e \<le> \<bar>x\<bar>" "\<bar>x\<bar> < 2 powi (e + 1)"
    and "x / 2 powi (e - 52) = of_int n + 1/2"
    and "y = of_int (if even n then n else n + 1) * 2 powi (e - 52)"
  shows "rne x = y"
  using rne_eval[OF assms(1,2)] round_half_even_tie[of n] assms(3,4) by simp

lemma rne_of_int:
  assumes "\<bar>n\<bar> < 2 ^ 53"
  shows "rne (of_int n) = of_int n"
proof (cases "n = 0")
  case True then show ?thesis by (simp add: rne_def)
next
  case False
  define e where "e = ilog2 (of_int n)"
  have x: "(of_int n :: rat) \<noteq> 0" using False by simp
  have b: "2 powi e \<le> \<bar>of_int n :: rat\<bar>" unfolding e_def by (rule ilog2_bounds(1)[OF x])
  have "\<bar>of_int n :: rat\<bar> < 2 ^ 53" using assms by (metis of_int_abs of_int_less_iff of_int_numeral of_int_power)
  then have lt: "(2::rat) powi e < 2 powi 53" using b by simp
  have e: "e < 53"
  proof (rule ccontr)
    assume "\<not> e < 53"
    then have "(2::rat) powi 53 \<le> 2 powi e" by (intro power_int_increasing) auto
    with lt show False by linarith
  qed
  define k where "k = nat (52 - e)"
  have k: "e - 52 = - int k" using e by (simp add: k_def)
  have "of_int n / (2::rat) powi (e - 52) = of_int (n * 2 ^ k)"
    by (simp add: k power_int_minus field_simps)
  then have "round_half_even (of_int n / (2::rat) powi (e - 52)) = n * 2 ^ k"
    by (simp only: round_half_even_of_int)
  then have "rne (of_int n) = of_int (n * 2 ^ k) * 2 powi (e - 52)"
    using x by (simp add: rne_def Let_def e_def)
  also have "\<dots> = of_int n" by (simp add: k power_int_minus field_simps)
  finally show ?thesis .
qed

section \<open>Literals and whole numbers\<close>

lemma rne_nonneg: "0 \<le> x \<Longrightarrow> 0 \<le> rne x"
proof -
  assume x: "0 \<le> x"
  have "0 \<le> round_half_even r" if "0 \<le> r" for r
  proof -
    have "0 \<le> \<lfloor>r\<rfloor>" using that by simp
    then show ?thesis by (simp add: round_half_even_def Let_def)
  qed
  then show ?thesis using x by (simp add: rne_def Let_def)
qed

lemma fmul_of_int:
  "\<bar>a * b\<bar> < 2 ^ 53 \<Longrightarrow> fmul (of_int a) (of_int b) = of_int (a * b)"
  using rne_of_int[of "a * b"] by (simp add: fmul_def)

lemma fadd_of_int:
  "\<bar>a + b\<bar> < 2 ^ 53 \<Longrightarrow> fadd (of_int a) (of_int b) = of_int (a + b)"
  using rne_of_int[of "a + b"] by (simp add: fadd_def)

lemma float_of_int_exact: "\<bar>n\<bar> < 2 ^ 53 \<Longrightarrow> float_of_int n = of_int n"
  by (simp add: float_of_int_def rne_of_int)

lemma float_lit_whole: "\<bar>n\<bar> < 2 ^ 53 \<Longrightarrow> float_lit (n * 10) 1 = of_int n"
  by (simp add: float_lit_def rne_of_int)

lemma lit_12: "float_lit 12 1 = 5404319552844595 / 2 ^ 52"
  unfolding float_lit_def by (rule rne_eqI[where e = 0 and n = 5404319552844595]) simp_all

lemma lit_14: "float_lit 14 1 = 6305039478318694 / 2 ^ 52"
  unfolding float_lit_def by (rule rne_eqI[where e = 0 and n = 6305039478318694]) simp_all

lemma lit_02: "float_lit 2 1 = 3602879701896397 / 2 ^ 54"
  unfolding float_lit_def by (rule rne_eqI[where e = "-3" and n = 7205759403792794]) simp_all

lemma lit_whole:
  "float_lit 0 1 = 0" "float_lit 10 1 = 1"
  "float_lit 300 1 = 30" "float_lit 400 1 = 40" "float_lit 500 1 = 50" "float_lit 600 1 = 60"
  "float_lit 700 1 = 70"
  "float_lit 2000 1 = 200" "float_lit 2500 1 = 250" "float_lit 3000 1 = 300"
  "float_lit 3200 1 = 320"
  using float_lit_whole[of 0] float_lit_whole[of 1] float_lit_whole[of 30]
    float_lit_whole[of 40] float_lit_whole[of 50] float_lit_whole[of 60] float_lit_whole[of 70]
    float_lit_whole[of 200] float_lit_whole[of 250] float_lit_whole[of 300]
    float_lit_whole[of 320]
  by simp_all

lemmas lit_simps = lit_whole lit_whole[unfolded One_nat_def] lit_12 lit_12[unfolded One_nat_def]
  lit_14 lit_14[unfolded One_nat_def] lit_02 lit_02[unfolded One_nat_def]

lemma fmul_one: "\<bar>n\<bar> < 2 ^ 53 \<Longrightarrow> fmul (of_int n) 1 = of_int n"
  by (simp add: fmul_def rne_of_int)

lemma mul_medium:
  "fmul 200 (5404319552844595 / 2 ^ 52) = 240"
  "fmul 250 (5404319552844595 / 2 ^ 52) = 300"
  "fmul 300 (5404319552844595 / 2 ^ 52) = 360"
  "fmul 320 (5404319552844595 / 2 ^ 52) = 384"
  unfolding fmul_def
     apply (rule rne_eqI[where e = 7 and n = "240 * 2 ^ 45"]; simp)
    apply (rule rne_eqI[where e = 8 and n = "300 * 2 ^ 44"]; simp)
   apply (rule rne_eqI[where e = 8 and n = "360 * 2 ^ 44"]; simp)
  apply (rule rne_eqI[where e = 8 and n = "384 * 2 ^ 44"]; simp)
  done

lemma mul_large:
  "fmul 200 (6305039478318694 / 2 ^ 52) = 280"
  "fmul 250 (6305039478318694 / 2 ^ 52) = 350"
  "fmul 300 (6305039478318694 / 2 ^ 52) = 420"
  "fmul 320 (6305039478318694 / 2 ^ 52) = 448"
  unfolding fmul_def
     apply (rule rne_eqI[where e = 8 and n = "280 * 2 ^ 44"]; simp)
    apply (rule rne_eqI[where e = 8 and n = "350 * 2 ^ 44"]; simp)
   apply (rule rne_eqI[where e = 8 and n = "420 * 2 ^ 44"]; simp)
  apply (rule rne_tieI[where e = 8 and n = 7881299347898367]; simp)
  done

section \<open>The catalogs\<close>

lemma base_in_catalog:
  "map_of BASE_PRICES b \<noteq> None \<longleftrightarrow> b \<in> {''espresso'', ''americano'', ''latte'', ''cappuccino''}"
  by (simp add: BASE_PRICES_def)

lemma size_in_catalog:
  "map_of SIZE_MULTIPLIERS z \<noteq> None \<longleftrightarrow> z \<in> {''small'', ''medium'', ''large''}"
  by (simp add: SIZE_MULTIPLIERS_def)

lemma milk_in_catalog:
  "map_of MILK_SURCHARGES m \<noteq> None \<longleftrightarrow> m \<in> {''none'', ''whole'', ''skim'', ''oat'', ''soy''}"
  by (simp add: MILK_SURCHARGES_def)

lemma base_price_lookup:
  assumes "map_of BASE_PRICES b \<noteq> None"
  shows "subscript BASE_PRICES b = Inr (basePrice b)"
  using assms unfolding base_in_catalog
  by (auto simp: subscript_def BASE_PRICES_def basePrice_def lit_simps)

lemma milk_lookup:
  assumes "map_of MILK_SURCHARGES m \<noteq> None"
  shows "subscript MILK_SURCHARGES m = Inr (milkSurcharge m)"
  using assms unfolding milk_in_catalog
  by (auto simp: subscript_def MILK_SURCHARGES_def milkSurcharge_def lit_simps)

lemma milk_whole:
  assumes "map_of MILK_SURCHARGES m \<noteq> None"
  shows "\<exists>M::int. milkSurcharge m = of_int M \<and> 0 \<le> M \<and> M \<le> 60"
proof -
  have "milkSurcharge m = of_int 0 \<or> milkSurcharge m = of_int 30 \<or> milkSurcharge m = of_int 50
      \<or> milkSurcharge m = of_int 60"
    using assms unfolding milk_in_catalog by (auto simp: milkSurcharge_def)
  then show ?thesis by fastforce
qed

text \<open>The float product of base price and multiplier is the exact product, a whole number.\<close>

lemma base_cost_whole:
  assumes "map_of BASE_PRICES b \<noteq> None" "map_of SIZE_MULTIPLIERS z \<noteq> None"
  obtains bp m and N :: int where
    "subscript BASE_PRICES b = Inr bp" "subscript SIZE_MULTIPLIERS z = Inr m"
    "fmul bp m = of_int N" "basePrice b * sizeMultiplier z = of_int N" "200 \<le> N" "N \<le> 448"
proof -
  have bp: "subscript BASE_PRICES b = Inr (basePrice b)" by (rule base_price_lookup[OF assms(1)])
  have b: "basePrice b = 200 \<or> basePrice b = 250 \<or> basePrice b = 300 \<or> basePrice b = 320"
    using assms(1) unfolding base_in_catalog by (auto simp: basePrice_def)
  from assms(2) consider "z = ''small''" | "z = ''medium''" | "z = ''large''"
    unfolding size_in_catalog by auto
  then show thesis
  proof cases
    case 1
    have m: "subscript SIZE_MULTIPLIERS z = Inr 1" "sizeMultiplier z = 1"
      by (simp_all add: 1 subscript_def SIZE_MULTIPLIERS_def sizeMultiplier_def lit_simps)
    from b obtain N :: int where "fmul (basePrice b) 1 = of_int N"
        "basePrice b * sizeMultiplier z = of_int N" "200 \<le> N" "N \<le> 448"
    proof (elim disjE)
      assume "basePrice b = 200" then show thesis using fmul_one[of 200] by (intro that[of 200]) (simp_all add: m)
    next
      assume "basePrice b = 250" then show thesis using fmul_one[of 250] by (intro that[of 250]) (simp_all add: m)
    next
      assume "basePrice b = 300" then show thesis using fmul_one[of 300] by (intro that[of 300]) (simp_all add: m)
    next
      assume "basePrice b = 320" then show thesis using fmul_one[of 320] by (intro that[of 320]) (simp_all add: m)
    qed
    then show thesis using bp m(1) by (rule that[rotated 2])
  next
    case 2
    have m: "subscript SIZE_MULTIPLIERS z = Inr (5404319552844595 / 2 ^ 52)"
      "sizeMultiplier z = 12 / 10"
      by (simp_all add: 2 subscript_def SIZE_MULTIPLIERS_def sizeMultiplier_def lit_simps)
    from b obtain N :: int where "fmul (basePrice b) (5404319552844595 / 2 ^ 52) = of_int N"
        "basePrice b * sizeMultiplier z = of_int N" "200 \<le> N" "N \<le> 448"
    proof (elim disjE)
      assume "basePrice b = 200" then show thesis using mul_medium(1) by (intro that[of 240]) (simp_all add: m)
    next
      assume "basePrice b = 250" then show thesis using mul_medium(2) by (intro that[of 300]) (simp_all add: m)
    next
      assume "basePrice b = 300" then show thesis using mul_medium(3) by (intro that[of 360]) (simp_all add: m)
    next
      assume "basePrice b = 320" then show thesis using mul_medium(4) by (intro that[of 384]) (simp_all add: m)
    qed
    then show thesis using bp m(1) by (rule that[rotated 2])
  next
    case 3
    have m: "subscript SIZE_MULTIPLIERS z = Inr (6305039478318694 / 2 ^ 52)"
      "sizeMultiplier z = 14 / 10"
      by (simp_all add: 3 subscript_def SIZE_MULTIPLIERS_def sizeMultiplier_def lit_simps)
    from b obtain N :: int where "fmul (basePrice b) (6305039478318694 / 2 ^ 52) = of_int N"
        "basePrice b * sizeMultiplier z = of_int N" "200 \<le> N" "N \<le> 448"
    proof (elim disjE)
      assume "basePrice b = 200" then show thesis using mul_large(1) by (intro that[of 280]) (simp_all add: m)
    next
      assume "basePrice b = 250" then show thesis using mul_large(2) by (intro that[of 350]) (simp_all add: m)
    next
      assume "basePrice b = 300" then show thesis using mul_large(3) by (intro that[of 420]) (simp_all add: m)
    next
      assume "basePrice b = 320" then show thesis using mul_large(4) by (intro that[of 448]) (simp_all add: m)
    qed
    then show thesis using bp m(1) by (rule that[rotated 2])
  qed
qed

section \<open>The iced surcharge\<close>

lemma rne_error_bounds:
  assumes "0 \<le> x"
  shows "x - x / 2 ^ 53 \<le> rne x" "rne x \<le> x + x / 2 ^ 53"
proof -
  have "\<bar>rne x - x\<bar> \<le> x / 2 ^ 53" using rne_error[of x] assms by (simp only: abs_of_nonneg)
  then have "rne x - x \<le> x / 2 ^ 53 \<and> - (rne x - x) \<le> x / 2 ^ 53" by (simp only: abs_le_iff)
  then show "x - x / 2 ^ 53 \<le> rne x" "rne x \<le> x + x / 2 ^ 53" by linarith+
qed

lemma iced_subtotal_close:
  fixes N S :: int
  assumes "0 \<le> N" "N \<le> 448" "0 \<le> S" "S \<le> 1000"
  shows "\<bar>fadd (of_int S) (fmul (of_int N) ICED_RATE) - (of_int S + of_int N / 5)\<bar> < 1 / 1000"
proof -
  define n :: rat where "n = of_int N"
  define s :: rat where "s = of_int S"
  define ic where "ic = rne (n * (3602879701896397 / 2 ^ 54))"
  define t where "t = rne (s + ic)"
  have n: "0 \<le> n" "n \<le> 448" and s: "0 \<le> s" "s \<le> 1000"
    using assms by (simp_all add: n_def s_def)
  have nd: "0 \<le> n * (3602879701896397 / 2 ^ 54)" using n by simp
  note i = rne_error_bounds[OF nd, folded ic_def]
  have ic0: "0 \<le> ic" unfolding ic_def by (rule rne_nonneg[OF nd])
  have "0 \<le> s + ic" using s ic0 by simp
  note tt = rne_error_bounds[OF this, folded t_def]
  have p: "(2::rat) ^ 53 = 9007199254740992" "(2::rat) ^ 54 = 18014398509481984" by simp_all
  note i' = i[unfolded p] and tt' = tt[unfolded p]
  have hi: "ic \<le> n / 5 + 1 / 10000" using i'(2) n by (simp add: field_simps)
  have lo: "n / 5 - 1 / 10000 \<le> ic" using i'(1) n by (simp add: field_simps)
  have sm: "(s + ic) / 9007199254740992 \<le> 1 / 10000" using hi n s ic0 by (simp add: field_simps)
  have "t - (s + n / 5) < 1 / 1000" using hi sm tt'(2) by linarith
  moreover have "- (t - (s + n / 5)) < 1 / 1000" using lo sm tt'(1) by linarith
  ultimately have "t - (s + n / 5) < 1 / 1000 \<and> - (t - (s + n / 5)) < 1 / 1000" by (rule conjI)
  then have "\<bar>t - (s + n / 5)\<bar> < 1 / 1000" by (simp only: abs_less_iff)
  then show ?thesis
    by (simp add: fadd_def fmul_def ICED_RATE_def lit_simps t_def ic_def n_def s_def)
qed

lemma iced_round:
  fixes N S :: int
  assumes "0 \<le> N" "N \<le> 448" "0 \<le> S" "S \<le> 1000"
  shows "round_half_even (fadd (of_int S) (fmul (of_int N) ICED_RATE) * 100) = 100 * S + 20 * N"
proof (rule round_half_even_eqI)
  let ?t = "fadd (of_int S) (fmul (of_int N) ICED_RATE)"
  have "?t * 100 - of_int (100 * S + 20 * N) = 100 * (?t - (of_int S + of_int N / 5))"
    by (simp add: algebra_simps)
  then have "\<bar>?t * 100 - of_int (100 * S + 20 * N)\<bar> = \<bar>100 * (?t - (of_int S + of_int N / 5))\<bar>"
    by (simp only:)
  also have "\<dots> = 100 * \<bar>?t - (of_int S + of_int N / 5)\<bar>"
    by (simp only: abs_mult abs_numeral)
  also have "\<dots> < 100 * (1 / 1000)"
    using iced_subtotal_close[OF assms] by (intro mult_strict_left_mono) simp_all
  finally show "\<bar>?t * 100 - of_int (100 * S + 20 * N)\<bar> < 1 / 2" by simp
qed

section \<open>Subtotals and the final rounding\<close>

lemma subtotal_whole:
  fixes N M L H :: int
  assumes "0 \<le> N" "N \<le> 448" "0 \<le> M" "M \<le> 60" "0 \<le> L" "L \<le> 4" "0 \<le> H" "H \<le> 3"
  shows "fadd (fadd (fadd (of_int N) (of_int M)) (fmul (float_of_int L) SYRUP_PRICE))
              (fmul (float_of_int H) SHOT_PRICE) = of_int (N + M + 40 * L + 70 * H)"
proof -
  have sy: "fmul (float_of_int L) SYRUP_PRICE = of_int (40 * L)"
    using fmul_of_int[of L 40] assms by (simp add: float_of_int_exact SYRUP_PRICE_def lit_simps mult.commute)
  have sh: "fmul (float_of_int H) SHOT_PRICE = of_int (70 * H)"
    using fmul_of_int[of H 70] assms by (simp add: float_of_int_exact SHOT_PRICE_def lit_simps mult.commute)
  have 1: "fadd (of_int N) (of_int M) = of_int (N + M)" using assms by (intro fadd_of_int) simp
  have 2: "fadd (of_int (N + M)) (of_int (40 * L)) = of_int (N + M + 40 * L)"
    using assms by (intro fadd_of_int) simp
  have 3: "fadd (of_int (N + M + 40 * L)) (of_int (70 * H)) = of_int (N + M + 40 * L + 70 * H)"
    using assms by (intro fadd_of_int) simp
  show ?thesis by (simp only: sy sh 1 2 3)
qed

lemma py_round_whole: "py_round (of_int S) 2 = rne (of_int S)"
proof -
  have "round_half_even (of_int S * 10 ^ 2) = S * 100"
    using round_half_even_of_int[of "S * 100"] by simp
  then show ?thesis by (simp add: py_round_def)
qed

lemma round2_whole: "round2 (of_int S) = of_int S"
proof -
  have "round_half_even (of_int S * 100) = S * 100"
    using round_half_even_of_int[of "S * 100"] by simp
  then show ?thesis by (simp add: round2_def)
qed

lemma round2_tenths: "round2 (of_int S + (20 / 100) * of_int N) = of_int S + of_int N / 5"
proof -
  have "(of_int S + (20 / 100) * of_int N) * 100 = (of_int (100 * S + 20 * N) :: rat)" by simp
  then have "round_half_even ((of_int S + (20 / 100) * of_int N) * 100) = 100 * S + 20 * N"
    by (simp only: round_half_even_of_int)
  then show ?thesis by (simp add: round2_def)
qed

lemma py_round_iced:
  fixes N S :: int
  assumes "0 \<le> N" "N \<le> 448" "0 \<le> S" "S \<le> 1000"
  shows "py_round (fadd (of_int S) (fmul (of_int N) ICED_RATE)) 2 = rne (of_int S + of_int N / 5)"
proof -
  have eq: "of_int (100 * S + 20 * N) / 10 ^ 2 = (of_int S + of_int N / 5 :: rat)" by simp
  have "(10::rat) ^ 2 = 100" by simp
  then have "round_half_even (fadd (of_int S) (fmul (of_int N) ICED_RATE) * 10 ^ 2)
      = 100 * S + 20 * N"
    using iced_round[OF assms] by (simp only:)
  then show ?thesis unfolding py_round_def by (simp only: eq)
qed

section \<open>The price of a builder state\<close>

lemma price_shape:
  assumes "invariant s" "b_base s = Some b" "b_size s = Some z"
  obtains N S :: int where
    "200 \<le> N" "N \<le> 448" "N \<le> S" "S \<le> 878"
    "basePrice b * sizeMultiplier z = of_int N"
    "calc_price (s\<lparr>b_iced := False\<rparr>) = Inr (of_int S)"
    "calc_price (s\<lparr>b_iced := True\<rparr>) = Inr (rne (of_int S + of_int N / 5))"
    "spec_price (s\<lparr>b_iced := False\<rparr>) = of_int S"
    "spec_price (s\<lparr>b_iced := True\<rparr>) = of_int S + of_int N / 5"
proof -
  from assms have cat: "map_of BASE_PRICES b \<noteq> None" "map_of SIZE_MULTIPLIERS z \<noteq> None"
      "map_of MILK_SURCHARGES (b_milk s) \<noteq> None"
    and bnd: "length (b_syrups s) \<le> 4" "0 \<le> b_shots s" "b_shots s \<le> 3"
    by (simp_all add: invariant_def bounds_def)
  from base_cost_whole[OF cat(1,2)] obtain bp m and N :: int where
    bp: "subscript BASE_PRICES b = Inr bp" and m: "subscript SIZE_MULTIPLIERS z = Inr m"
    and bc: "fmul bp m = of_int N" and ex: "basePrice b * sizeMultiplier z = of_int N"
    and N: "200 \<le> N" "N \<le> 448" by blast
  from milk_whole[OF cat(3)] obtain M :: int where
    M: "milkSurcharge (b_milk s) = of_int M" "0 \<le> M" "M \<le> 60" by blast
  have mk: "subscript MILK_SURCHARGES (b_milk s) = Inr (of_int M)"
    using milk_lookup[OF cat(3)] by (simp only: M(1))
  define L where "L = int (length (b_syrups s))"
  define H where "H = b_shots s"
  define S where "S = N + M + 40 * L + 70 * H"
  have L: "0 \<le> L" "L \<le> 4" using bnd(1) by (simp_all add: L_def)
  have H: "0 \<le> H" "H \<le> 3" using bnd(2,3) by (simp_all add: H_def)
  have N0: "0 \<le> N" using N(1) by simp
  have st: "fadd (fadd (fadd (of_int N) (of_int M)) (fmul (float_of_int L) SYRUP_PRICE))
              (fmul (float_of_int H) SHOT_PRICE) = of_int S"
    unfolding S_def by (rule subtotal_whole[OF N0 N(2) M(2,3) L H])
  have S: "N \<le> S" "0 \<le> S" "S \<le> 1000" "\<bar>S\<bar> < 2 ^ 53" "S \<le> 878"
    using N M(2,3) L H by (simp_all add: S_def)
  have hot: "calc_price (s\<lparr>b_iced := False\<rparr>) = Inr (of_int S)"
    using st by (simp add: calc_price_def assms(2,3) bp m mk bc Let_def L_def H_def
        py_round_whole rne_of_int[OF S(4)])
  have iced: "calc_price (s\<lparr>b_iced := True\<rparr>) = Inr (rne (of_int S + of_int N / 5))"
    using st by (simp add: calc_price_def assms(2,3) bp m mk bc Let_def L_def H_def
        py_round_iced[OF N0 N(2) S(2,3)])
  have sub: "basePrice b * sizeMultiplier z + milkSurcharge (b_milk s)
        + 40 * of_nat (length (b_syrups s)) + 70 * of_int (b_shots s) = of_int S"
    by (simp add: ex M(1) S_def L_def H_def)
  have shot: "spec_price (s\<lparr>b_iced := False\<rparr>) = of_int S"
    using sub by (simp add: spec_price_def spec_subtotal_def assms(2,3) Let_def round2_whole)
  have "spec_subtotal (s\<lparr>b_iced := True\<rparr>) = of_int S + (20 / 100) * of_int N"
    using sub by (simp add: spec_subtotal_def assms(2,3) Let_def ex)
  then have siced: "spec_price (s\<lparr>b_iced := True\<rparr>) = of_int S + of_int N / 5"
    by (simp only: spec_price_def round2_tenths)
  show thesis by (rule that[OF N S(1,5) ex hot iced shot siced])
qed

lemma calc_price_exact:
  assumes "invariant s" "b_base s = Some b" "b_size s = Some z"
  shows "calc_price s = Inr (rne (spec_price s))"
proof -
  from price_shape[OF assms] obtain N S :: int where
    S: "S \<le> 878" "N \<le> S" "200 \<le> N"
    and c: "calc_price (s\<lparr>b_iced := False\<rparr>) = Inr (of_int S)"
      "calc_price (s\<lparr>b_iced := True\<rparr>) = Inr (rne (of_int S + of_int N / 5))"
    and p: "spec_price (s\<lparr>b_iced := False\<rparr>) = of_int S"
      "spec_price (s\<lparr>b_iced := True\<rparr>) = of_int S + of_int N / 5"
    by blast
  have r: "rne (of_int S) = of_int S" using S by (intro rne_of_int) simp
  show ?thesis
  proof (cases "b_iced s")
    case True
    then have "s\<lparr>b_iced := True\<rparr> = s" by simp
    then show ?thesis using c(2) p(2) by simp
  next
    case False
    then have "s\<lparr>b_iced := False\<rparr> = s" by simp
    then show ?thesis using c(1) p(1) r by simp
  qed
qed

section \<open>The methods of the builder\<close>

lemmas method_defs = seq_def bind_def raise_if_def raise_def return_def assign_def read_def
  helper_def returning_self_def

lemma set_base_run:
  "set_base b s = (if map_of BASE_PRICES b = None then (Inl (ValueError (Invalid_base b)), s)
                   else (Inr (), s\<lparr>b_base := Some b\<rparr>))"
  by (simp add: set_base_def method_defs)

lemma set_size_run:
  "set_size z s = (if map_of SIZE_MULTIPLIERS z = None then (Inl (ValueError (Invalid_size z)), s)
                   else (Inr (), s\<lparr>b_size := Some z\<rparr>))"
  by (simp add: set_size_def method_defs)

lemma set_milk_run:
  "set_milk m s = (if map_of MILK_SURCHARGES m = None then (Inl (ValueError (Invalid_milk m)), s)
                   else (Inr (), s\<lparr>b_milk := m\<rparr>))"
  by (simp add: set_milk_def method_defs)

lemma add_syrup_run:
  "add_syrup n s =
     (if n \<in> set (b_syrups s) then (Inr (), s)
      else if 4 \<le> length (b_syrups s) then (Inl (ValueError Syrup_limit), s)
      else (Inr (), s\<lparr>b_syrups := b_syrups s @ [n]\<rparr>))"
  by (simp add: add_syrup_def method_defs MAX_SYRUPS_def)

lemma set_sugar_run:
  "set_sugar t s = (if 0 \<le> t \<and> t \<le> 5 then (Inr (), s\<lparr>b_sugar := t\<rparr>)
                    else (Inl (ValueError Sugar_range), s))"
  by (simp add: set_sugar_def method_defs MAX_SUGAR_def)

lemma add_shot_run:
  "add_shot c s =
     (if c < 0 then (Inl (ValueError Negative_shots), s)
      else if 3 < b_shots s + c then (Inl (ValueError Shot_limit), s)
      else (Inr (), s\<lparr>b_shots := b_shots s + c\<rparr>))"
  by (simp add: add_shot_def method_defs MAX_SHOTS_def Let_def)

lemma set_iced_run: "set_iced i s = (Inr (), s\<lparr>b_iced := i\<rparr>)"
  by (simp add: set_iced_def method_defs)

lemma clear_extras_run:
  "clear_extras s = (Inr (), s\<lparr>b_milk := ''none'', b_syrups := [], b_sugar := 0,
                                b_shots := 0, b_iced := False\<rparr>)"
  by (simp add: clear_extras_def method_defs DEFAULT_MILK_def)

lemma build_run:
  "build s =
     (case b_base s of None \<Rightarrow> (Inl (ValueError Base_required), s) | Some b \<Rightarrow>
      case b_size s of None \<Rightarrow> (Inl (ValueError Size_required), s) | Some z \<Rightarrow>
      case calc_price s of Inl e \<Rightarrow> (Inl e, s) | Inr p \<Rightarrow>
      case build_description s of Inl e \<Rightarrow> (Inl e, s) | Inr d \<Rightarrow>
        (Inr \<lparr>o_base = b, o_size = z, o_milk = b_milk s, o_syrups = b_syrups s,
               o_sugar = b_sugar s, o_iced = b_iced s, o_price = p, o_description = d,
               o_extra_shots = b_shots s\<rparr>, s))"
  by (simp add: build_def method_defs split: option.splits sum.splits)

lemmas run_simps = set_base_run set_size_run set_milk_run add_syrup_run set_sugar_run
  add_shot_run set_iced_run clear_extras_run

lemma build_state: "snd (build s) = s"
  by (simp add: build_run split: option.splits sum.splits)

lemma returning_self_snd: "snd (returning_self m s) = snd (m s)"
  by (simp add: returning_self_def bind_def return_def split: prod.splits sum.splits)

lemma returning_self_fst:
  "fst (returning_self m s) = (case fst (m s) of Inl e \<Rightarrow> Inl e | Inr _ \<Rightarrow> Inr Self)"
  by (simp add: returning_self_def bind_def return_def split: prod.splits sum.splits)

lemma call_build_snd: "snd (call Build s) = s"
proof -
  obtain r s' where b: "build s = (r, s')" by (cases "build s")
  with build_state[of s] have "s' = s" by simp
  then show ?thesis by (cases r) (simp_all add: b bind_def return_def)
qed

lemma call_build_fst:
  "fst (call Build s) = (case fst (build s) of Inl e \<Rightarrow> Inl e | Inr ord \<Rightarrow> Inr (Built ord))"
  by (simp add: bind_def return_def split: prod.splits sum.splits)

lemmas call_simps = returning_self_snd returning_self_fst call_build_snd call_build_fst
  call_build_snd[unfolded call.simps] call_build_fst[unfolded call.simps]

lemma default_milk_in_catalog: "map_of MILK_SURCHARGES ''none'' \<noteq> None"
  by (simp add: MILK_SURCHARGES_def)

lemma call_invariant:
  assumes "invariant s"
  shows "invariant (snd (call c s))"
proof (cases c)
  case (Set_base b)
  then show ?thesis using assms by (simp add: call_simps run_simps invariant_def)
next
  case (Set_size z)
  then show ?thesis using assms by (simp add: call_simps run_simps invariant_def)
next
  case (Set_milk m)
  then show ?thesis using assms by (simp add: call_simps run_simps invariant_def)
next
  case (Add_syrup n)
  then show ?thesis using assms by (simp add: call_simps run_simps invariant_def bounds_def)
next
  case (Set_sugar t)
  then show ?thesis using assms by (simp add: call_simps run_simps invariant_def bounds_def)
next
  case (Add_shot k)
  then show ?thesis using assms by (simp add: call_simps run_simps invariant_def bounds_def)
next
  case (Set_iced i)
  then show ?thesis using assms by (simp add: call_simps run_simps invariant_def)
next
  case Clear_extras
  then show ?thesis using assms default_milk_in_catalog
    by (simp add: call_simps run_simps invariant_def bounds_def)
next
  case Build
  then show ?thesis using assms by (simp only: call_build_snd)
qed

lemma init_invariant: "invariant init"
  by (simp add: invariant_def bounds_def init_def DEFAULT_MILK_def MILK_SURCHARGES_def)

lemma reachable_invariant: "reachable s \<Longrightarrow> invariant s"
  by (induction rule: reachable.induct) (simp_all add: init_invariant call_invariant)

lemma reachable_calls: "reachable s \<Longrightarrow> reachable (calls cs s)"
  by (induction cs arbitrary: s) (simp_all add: reachable.step)

lemma example_state: "calls example_calls init = example"
  by (simp add: example_calls_def init_def example_def call_simps run_simps DEFAULT_MILK_def
      BASE_PRICES_def SIZE_MULTIPLIERS_def MILK_SURCHARGES_def)

lemma reachable_example: "reachable example"
  using reachable_calls[OF reachable.fresh, of example_calls] by (simp only: example_state)

section \<open>Building an order\<close>

lemma build_description_clauses:
  assumes "invariant s" "b_base s = Some b" "b_size s = Some z"
  shows "build_description s = Inr (spec_description s)"
proof -
  from assms(1) have "0 \<le> b_sugar s" "0 \<le> b_shots s" by (simp_all add: invariant_def bounds_def)
  then have nz: "(b_sugar s \<noteq> 0) = (0 < b_sugar s)" "(b_shots s \<noteq> 0) = (0 < b_shots s)" by auto
  show ?thesis
    by (simp add: build_description_def spec_description_def spec_clauses_def assms(2,3) Let_def
        DEFAULT_MILK_def nz)
qed

lemma build_succeeds:
  assumes "invariant s" "b_base s = Some b" "b_size s = Some z"
  shows "build s = (Inr \<lparr>o_base = b, o_size = z, o_milk = b_milk s, o_syrups = b_syrups s,
               o_sugar = b_sugar s, o_iced = b_iced s, o_price = rne (spec_price s),
               o_description = spec_description s, o_extra_shots = b_shots s\<rparr>, s)"
  by (simp add: build_run assms(2,3) calc_price_exact[OF assms] build_description_clauses[OF assms])

lemma example_price: "rne (spec_price example) = 498"
proof -
  have "spec_subtotal example = of_int 498"
    by (simp add: spec_subtotal_def example_def basePrice_def sizeMultiplier_def milkSurcharge_def)
  then have "spec_price example = of_int 498" by (simp only: spec_price_def round2_whole)
  then show ?thesis using rne_of_int[of 498] by simp
qed

lemma example_description:
  "spec_description example =
     ''medium espresso with oat milk +vanilla,caramel syrup (iced) 2 tsp sugar +1 extra shot(s)''"
  by (simp add: spec_description_def spec_clauses_def example_def str_int_def)

lemma build_order:
  assumes "invariant s" "b_base s = Some b" "b_size s = Some z"
  obtains ord where "build s = (Inr ord, s)" "built s = Some ord"
    "o_base ord = b" "o_size ord = z" "o_milk ord = b_milk s" "o_syrups ord = b_syrups s"
    "o_sugar ord = b_sugar s" "o_iced ord = b_iced s" "o_extra_shots ord = b_shots s"
    "o_price ord = rne (spec_price s)" "o_description ord = spec_description s"
proof -
  note b = build_succeeds[OF assms]
  show thesis
    by (rule that[OF b]) (simp_all add: built_def b)
qed

lemma invariant_iced: "invariant (s\<lparr>b_iced := i\<rparr>) = invariant s"
  by (simp add: invariant_def)

lemma price_nonneg:
  assumes "invariant s" "b_base s = Some b" "b_size s = Some z"
  shows "0 \<le> rne (spec_price s)"
proof -
  from price_shape[OF assms] obtain N S :: int where
    S: "200 \<le> N" "N \<le> S"
    and p: "spec_price (s\<lparr>b_iced := False\<rparr>) = of_int S"
      "spec_price (s\<lparr>b_iced := True\<rparr>) = of_int S + of_int N / 5"
    by blast
  have "0 \<le> spec_price s"
  proof (cases "b_iced s")
    case True
    then have "s\<lparr>b_iced := True\<rparr> = s" by simp
    then have "spec_price s = of_int S + of_int N / 5" using p(2) by simp
    then show ?thesis using S by simp
  next
    case False
    then have "s\<lparr>b_iced := False\<rparr> = s" by simp
    then have "spec_price s = of_int S" using p(1) by simp
    then show ?thesis using S by simp
  qed
  then show ?thesis by (rule rne_nonneg)
qed

lemma cappuccino_large_reachable: "reachable (cappuccino_large i)"
proof -
  have "calls [Set_base ''cappuccino'', Set_size ''large'', Set_iced i] init = cappuccino_large i"
    by (simp add: cappuccino_large_def init_def call_simps run_simps DEFAULT_MILK_def
        BASE_PRICES_def SIZE_MULTIPLIERS_def)
  then show ?thesis
    using reachable_calls[OF reachable.fresh, of "[Set_base ''cappuccino'', Set_size ''large'', Set_iced i]"]
    by simp
qed

lemma cappuccino_large_spec_price:
  "spec_price (cappuccino_large False) = 448" "spec_price (cappuccino_large True) = 2688 / 5"
proof -
  have "spec_subtotal (cappuccino_large False) = 448"
    by (simp add: spec_subtotal_def cappuccino_large_def basePrice_def sizeMultiplier_def
        milkSurcharge_def)
  then show "spec_price (cappuccino_large False) = 448"
    using round2_whole[of 448] by (simp add: spec_price_def)
  have "spec_subtotal (cappuccino_large True) = of_int 448 + (20 / 100) * of_int 448"
    by (simp add: spec_subtotal_def cappuccino_large_def basePrice_def sizeMultiplier_def
        milkSurcharge_def)
  then show "spec_price (cappuccino_large True) = 2688 / 5"
    by (simp only: spec_price_def round2_tenths)
qed

lemma rne_5376: "rne (2688 / 5) = 4728779608739021 / 8796093022208"
  by (rule rne_eqI[where e = 9 and n = 4728779608739021]) simp_all

lemma rne_896: "rne (448 / 5) = 6305039478318694 / 70368744177664"
  by (rule rne_eqI[where e = 6 and n = 6305039478318694]) simp_all

lemma cappuccino_large_prices:
  "map_option o_price (built (cappuccino_large False)) = Some 448"
  "map_option o_price (built (cappuccino_large True)) = Some (4728779608739021 / 8796093022208)"
proof -
  have bz: "b_base (cappuccino_large i) = Some ''cappuccino''"
    "b_size (cappuccino_large i) = Some ''large''" for i
    by (simp_all add: cappuccino_large_def)
  have inv: "invariant (cappuccino_large i)" for i
    by (rule reachable_invariant[OF cappuccino_large_reachable])
  from build_order[OF inv bz] obtain hot where
    "built (cappuccino_large False) = Some hot"
    "o_price hot = rne (spec_price (cappuccino_large False))" by blast
  then show "map_option o_price (built (cappuccino_large False)) = Some 448"
    using rne_of_int[of 448] by (simp add: cappuccino_large_spec_price)
  from build_order[OF inv bz] obtain iced where
    "built (cappuccino_large True) = Some iced"
    "o_price iced = rne (spec_price (cappuccino_large True))" by blast
  then show "map_option o_price (built (cappuccino_large True))
      = Some (4728779608739021 / 8796093022208)"
    by (simp only: cappuccino_large_spec_price rne_5376) simp
qed

lemma cappuccino_large_difference:
  "fsub (4728779608739021 / 8796093022208) 448 = 6305039478318696 / 70368744177664"
  unfolding fsub_def by (rule rne_eqI[where e = 6 and n = 6305039478318696]) simp_all

lemma cappuccino_large_surcharge:
  "fmul (fmul (float_lit 3200 1) (float_lit 14 1)) ICED_RATE = 6305039478318695 / 70368744177664"
proof -
  have "fmul (float_lit 3200 1) (float_lit 14 1) = 448"
    using mul_large(4) by (simp add: lit_simps)
  moreover have "fmul 448 (3602879701896397 / 2 ^ 54) = 6305039478318695 / 70368744177664"
    unfolding fmul_def by (rule rne_eqI[where e = 6 and n = 6305039478318695]) simp_all
  ultimately show ?thesis by (simp add: ICED_RATE_def lit_simps)
qed

lemma iced_pair:
  assumes "invariant s" "b_base s = Some b" "b_size s = Some z"
  obtains hot iced and N S :: int where
    "built (s\<lparr>b_iced := False\<rparr>) = Some hot" "built (s\<lparr>b_iced := True\<rparr>) = Some iced"
    "o_price hot = of_int S" "o_price iced = rne (of_int S + of_int N / 5)"
    "basePrice b * sizeMultiplier z = of_int N" "200 \<le> N" "N \<le> 448" "N \<le> S" "S \<le> 878"
proof -
  from price_shape[OF assms] obtain N S :: int where
    N: "200 \<le> N" "N \<le> 448" "N \<le> S" "S \<le> 878"
    and bc: "basePrice b * sizeMultiplier z = of_int N"
    and p: "spec_price (s\<lparr>b_iced := False\<rparr>) = of_int S"
      "spec_price (s\<lparr>b_iced := True\<rparr>) = of_int S + of_int N / 5"
    by blast
  have inv: "invariant (s\<lparr>b_iced := i\<rparr>)" for i using assms(1) by (simp only: invariant_iced)
  have bz: "b_base (s\<lparr>b_iced := i\<rparr>) = Some b" "b_size (s\<lparr>b_iced := i\<rparr>) = Some z" for i
    using assms(2,3) by simp_all
  from build_order[OF inv bz] obtain hot where
    h: "built (s\<lparr>b_iced := False\<rparr>) = Some hot"
      "o_price hot = rne (spec_price (s\<lparr>b_iced := False\<rparr>))" by blast
  from build_order[OF inv bz] obtain iced where
    i: "built (s\<lparr>b_iced := True\<rparr>) = Some iced"
      "o_price iced = rne (spec_price (s\<lparr>b_iced := True\<rparr>))" by blast
  have "rne (of_int S) = of_int S" using N by (intro rne_of_int) simp
  then have h': "o_price hot = of_int S" using h(2) p(1) by simp
  have i': "o_price iced = rne (of_int S + of_int N / 5)" using i(2) p(2) by simp
  show thesis by (rule that[OF h(1) i(1) h' i' bc N])
qed

lemma built_order:
  assumes "invariant s" "b_base s = Some b" "b_size s = Some z"
  shows "built s = Some \<lparr>o_base = b, o_size = z, o_milk = b_milk s, o_syrups = b_syrups s,
               o_sugar = b_sugar s, o_iced = b_iced s, o_price = rne (spec_price s),
               o_description = spec_description s, o_extra_shots = b_shots s\<rparr>"
  by (simp add: built_def build_succeeds[OF assms])

lemma spec_price_sugar: "spec_price (s\<lparr>b_sugar := t\<rparr>) = spec_price s"
  by (simp add: spec_price_def spec_subtotal_def)

lemma call_keeps_base: "b_base s \<noteq> None \<Longrightarrow> b_base (snd (call c s)) \<noteq> None"
  by (cases c) (simp_all add: call_simps run_simps)

lemma call_keeps_size: "b_size s \<noteq> None \<Longrightarrow> b_size (snd (call c s)) \<noteq> None"
  by (cases c) (simp_all add: call_simps run_simps)

lemma second_order:
  assumes inv: "invariant s" and bz: "b_base s = Some b" "b_size s = Some z"
    and o1: "built s = Some first" and o2: "built (snd (call c s)) = Some second"
  shows "only_affected c first second"
proof -
  note f = built_order[OF inv bz]
  have first: "first = \<lparr>o_base = b, o_size = z, o_milk = b_milk s, o_syrups = b_syrups s,
               o_sugar = b_sugar s, o_iced = b_iced s, o_price = rne (spec_price s),
               o_description = spec_description s, o_extra_shots = b_shots s\<rparr>"
    using f o1 by simp
  have same: "second = first" if "snd (call c s) = s"
    using o1 o2 that by simp
  have sec: "second = \<lparr>o_base = b', o_size = z', o_milk = b_milk s', o_syrups = b_syrups s',
               o_sugar = b_sugar s', o_iced = b_iced s', o_price = rne (spec_price s'),
               o_description = spec_description s', o_extra_shots = b_shots s'\<rparr>"
    if "snd (call c s) = s'" "b_base s' = Some b'" "b_size s' = Some z'" for s' b' z'
  proof -
    have "invariant s'" using call_invariant[OF inv, of c] that(1) by simp
    from built_order[OF this that(2,3)] o2[unfolded that(1)] show ?thesis by simp
  qed
  show ?thesis
  proof (cases c)
    case (Set_base b')
    show ?thesis
    proof (cases "map_of BASE_PRICES b' = None")
      case True
      then have "snd (call c s) = s" by (simp add: Set_base call_simps run_simps)
      from same[OF this] show ?thesis by (simp add: only_affected_def Set_base)
    next
      case False
      then have s': "snd (call c s) = s\<lparr>b_base := Some b'\<rparr>"
        by (auto simp: Set_base call_simps run_simps)
      from sec[OF s', of b' z] bz
      show ?thesis by (simp add: first only_affected_def Set_base)
    qed
  next
    case (Set_size z')
    show ?thesis
    proof (cases "map_of SIZE_MULTIPLIERS z' = None")
      case True
      then have "snd (call c s) = s" by (simp add: Set_size call_simps run_simps)
      from same[OF this] show ?thesis by (simp add: only_affected_def Set_size)
    next
      case False
      then have s': "snd (call c s) = s\<lparr>b_size := Some z'\<rparr>"
        by (auto simp: Set_size call_simps run_simps)
      from sec[OF s', of b z'] bz
      show ?thesis by (simp add: first only_affected_def Set_size)
    qed
  next
    case (Set_milk m)
    show ?thesis
    proof (cases "map_of MILK_SURCHARGES m = None")
      case True
      then have "snd (call c s) = s" by (simp add: Set_milk call_simps run_simps)
      from same[OF this] show ?thesis by (simp add: only_affected_def Set_milk)
    next
      case False
      then have s': "snd (call c s) = s\<lparr>b_milk := m\<rparr>"
        by (auto simp: Set_milk call_simps run_simps)
      from sec[OF s', of b z] bz
      show ?thesis by (simp add: first only_affected_def Set_milk)
    qed
  next
    case (Add_syrup n)
    show ?thesis
    proof (cases "n \<in> set (b_syrups s) \<or> 4 \<le> length (b_syrups s)")
      case True
      then have "snd (call c s) = s" by (auto simp: Add_syrup call_simps run_simps)
      from same[OF this] show ?thesis by (simp add: only_affected_def Add_syrup)
    next
      case False
      then have s': "snd (call c s) = s\<lparr>b_syrups := b_syrups s @ [n]\<rparr>"
        by (simp add: Add_syrup call_simps run_simps)
      from sec[OF s', of b z] bz
      show ?thesis by (simp add: first only_affected_def Add_syrup)
    qed
  next
    case (Set_sugar t)
    show ?thesis
    proof (cases "0 \<le> t \<and> t \<le> 5")
      case False
      then have "snd (call c s) = s" by (auto simp: Set_sugar call_simps run_simps)
      from same[OF this] show ?thesis by (simp add: only_affected_def Set_sugar)
    next
      case True
      then have s': "snd (call c s) = s\<lparr>b_sugar := t\<rparr>"
        by (simp add: Set_sugar call_simps run_simps)
      from sec[OF s', of b z] bz
      show ?thesis by (simp add: first only_affected_def Set_sugar spec_price_sugar)
    qed
  next
    case (Add_shot k)
    show ?thesis
    proof (cases "k < 0 \<or> 3 < b_shots s + k")
      case True
      then have "snd (call c s) = s" by (auto simp: Add_shot call_simps run_simps)
      from same[OF this] show ?thesis by (simp add: only_affected_def Add_shot)
    next
      case False
      then have s': "snd (call c s) = s\<lparr>b_shots := b_shots s + k\<rparr>"
        by (simp add: Add_shot call_simps run_simps)
      from sec[OF s', of b z] bz
      show ?thesis by (simp add: first only_affected_def Add_shot)
    qed
  next
    case (Set_iced i)
    have s': "snd (call c s) = s\<lparr>b_iced := i\<rparr>"
      by (simp add: Set_iced call_simps run_simps)
    from sec[OF s', of b z] bz
      show ?thesis by (simp add: first only_affected_def Set_iced)
  next
    case Clear_extras
    have s': "snd (call c s) = s\<lparr>b_milk := ''none'', b_syrups := [], b_sugar := 0,
                                b_shots := 0, b_iced := False\<rparr>"
      by (simp add: Clear_extras call_simps run_simps)
    from sec[OF s', of b z] bz
      show ?thesis by (simp add: first only_affected_def Clear_extras)
  next
    case Build
    have "snd (call c s) = s" by (simp only: Build call_build_snd)
    from same[OF this] show ?thesis by (simp add: only_affected_def Build)
  qed
qed

lemma run_builder: "builder (after c w) = snd (call c (builder w))"
  by (simp add: after_def run_def split: prod.splits sum.splits outcome.splits)

lemma run_build:
  assumes "built (builder w) = Some ord"
  shows "run Build w = (Inr (Order_ref (length (store w))),
                        \<lparr>builder = builder w, store = store w @ [ord]\<rparr>)"
proof -
  from assms have "fst (build (builder w)) = Inr ord"
    by (simp add: built_def split: sum.splits)
  moreover have "snd (build (builder w)) = builder w" by (rule build_state)
  ultimately have "build (builder w) = (Inr ord, builder w)" by (simp add: prod_eq_iff)
  then show ?thesis by (simp add: run_def bind_def return_def)
qed

lemma run_store: "\<exists>xs. store (after c w) = store w @ xs"
  by (simp add: after_def run_def split: prod.splits sum.splits outcome.splits)

section \<open>Properties of the builder\<close>

subsection \<open>Price\<close>

text \<open>
  C1.  In every state that a builder with base and size set can be in, \<^verbatim>\<open>build()\<close> returns
  an order whose price is the specification's formula: base price times size multiplier,
  plus the milk surcharge, plus 40 for each syrup, plus 70 for each shot, plus 20 percent of
  the base cost if iced, rounded once, at the end, to two decimal places.  The formula is
  read in exact decimal arithmetic; the price, a float, is the double nearest to its value.
  The end-to-end example costs 498.00.
\<close>

theorem price_formula:
  assumes "reachable s" "b_base s = Some b" "b_size s = Some z"
  shows "(\<exists>ord. build s = (Inr ord, s) \<and>
           o_price ord =
             rne (round2 (basePrice b * sizeMultiplier z + milkSurcharge (b_milk s)
                          + 40 * of_nat (length (b_syrups s)) + 70 * of_int (b_shots s)
                          + (if b_iced s then (20 / 100) * (basePrice b * sizeMultiplier z)
                             else 0))))
         \<and> map_option o_price (built (calls example_calls init)) = Some 498"
proof -
  have inv: "invariant s" by (rule reachable_invariant[OF assms(1)])
  have "spec_price s =
      round2 (basePrice b * sizeMultiplier z + milkSurcharge (b_milk s)
              + 40 * of_nat (length (b_syrups s)) + 70 * of_int (b_shots s)
              + (if b_iced s then (20 / 100) * (basePrice b * sizeMultiplier z) else 0))"
    by (simp add: spec_price_def spec_subtotal_def assms(2,3) Let_def)
  then have 1: "\<exists>ord. build s = (Inr ord, s) \<and>
           o_price ord =
             rne (round2 (basePrice b * sizeMultiplier z + milkSurcharge (b_milk s)
                          + 40 * of_nat (length (b_syrups s)) + 70 * of_int (b_shots s)
                          + (if b_iced s then (20 / 100) * (basePrice b * sizeMultiplier z)
                             else 0)))"
    using build_succeeds[OF inv assms(2,3)] by simp
  have ex: "b_base example = Some ''espresso''" "b_size example = Some ''medium''"
    by (simp_all add: example_def)
  have "map_option o_price (built example) = Some 498"
    using build_succeeds[OF reachable_invariant[OF reachable_example] ex] example_price
    by (simp add: built_def)
  then have 2: "map_option o_price (built (calls example_calls init)) = Some 498"
    by (simp only: example_state)
  from 1 2 show ?thesis by (rule conjI)
qed

theorem price_formula_witness:
  "reachable example \<and> b_base example = Some ''espresso'' \<and> b_size example = Some ''medium''
   \<and> (\<exists>ord. build example = (Inr ord, example) \<and> o_price ord = 498)"
proof -
  have ex: "b_base example = Some ''espresso''" "b_size example = Some ''medium''"
    by (simp_all add: example_def)
  have "spec_price example =
      round2 (basePrice ''espresso'' * sizeMultiplier ''medium'' + milkSurcharge (b_milk example)
              + 40 * of_nat (length (b_syrups example)) + 70 * of_int (b_shots example)
              + (if b_iced example
                 then (20 / 100) * (basePrice ''espresso'' * sizeMultiplier ''medium'') else 0))"
    by (simp add: spec_price_def spec_subtotal_def ex Let_def)
  then have p: "rne (round2 (basePrice ''espresso'' * sizeMultiplier ''medium''
              + milkSurcharge (b_milk example)
              + 40 * of_nat (length (b_syrups example)) + 70 * of_int (b_shots example)
              + (if b_iced example
                 then (20 / 100) * (basePrice ''espresso'' * sizeMultiplier ''medium'') else 0)))
      = 498"
    using example_price by (simp only:)
  from price_formula[OF reachable_example ex] obtain ord where
    "build example = (Inr ord, example)" "o_price ord = 498"
    unfolding p by blast
  with reachable_example ex show ?thesis by blast
qed

subsection \<open>Description\<close>

text \<open>
  C2.  In every state that a builder with base and size set can be in, the description of
  the order is the clauses whose condition holds, in the fixed order, joined by spaces:
  size and base; the milk unless it is the default; the syrups, comma-joined in insertion
  order, if there are any; "(iced)"; the sugar if positive; the shots if positive.  The
  end-to-end example gives the sentence of the specification.
\<close>

theorem description_clauses:
  assumes "reachable s" "b_base s = Some b" "b_size s = Some z"
  shows "(\<exists>ord. build s = (Inr ord, s) \<and>
           o_description ord =
             join '' '' (map snd (filter fst
               [(True, z @ '' '' @ b),
                (b_milk s \<noteq> ''none'', ''with '' @ b_milk s @ '' milk''),
                (b_syrups s \<noteq> [], ''+'' @ join '','' (b_syrups s) @ '' syrup''),
                (b_iced s, ''(iced)''),
                (b_sugar s > 0, str_int (b_sugar s) @ '' tsp sugar''),
                (b_shots s > 0, ''+'' @ str_int (b_shots s) @ '' extra shot(s)'')])))
         \<and> map_option o_description (built (calls example_calls init)) =
             Some ''medium espresso with oat milk +vanilla,caramel syrup (iced) 2 tsp sugar +1 extra shot(s)''"
proof (rule conjI)
  have inv: "invariant s" by (rule reachable_invariant[OF assms(1)])
  from build_order[OF inv assms(2,3)] obtain ord where
    o: "build s = (Inr ord, s)" and d: "o_description ord = spec_description s" by blast
  have the: "the (b_base s) = b" "the (b_size s) = z" by (simp_all only: assms(2,3) option.sel)
  show "\<exists>ord. build s = (Inr ord, s) \<and>
           o_description ord =
             join '' '' (map snd (filter fst
               [(True, z @ '' '' @ b),
                (b_milk s \<noteq> ''none'', ''with '' @ b_milk s @ '' milk''),
                (b_syrups s \<noteq> [], ''+'' @ join '','' (b_syrups s) @ '' syrup''),
                (b_iced s, ''(iced)''),
                (b_sugar s > 0, str_int (b_sugar s) @ '' tsp sugar''),
                (b_shots s > 0, ''+'' @ str_int (b_shots s) @ '' extra shot(s)'')]))"
  proof (intro exI conjI)
    show "build s = (Inr ord, s)" by (fact o)
    show "o_description ord =
             join '' '' (map snd (filter fst
               [(True, z @ '' '' @ b),
                (b_milk s \<noteq> ''none'', ''with '' @ b_milk s @ '' milk''),
                (b_syrups s \<noteq> [], ''+'' @ join '','' (b_syrups s) @ '' syrup''),
                (b_iced s, ''(iced)''),
                (b_sugar s > 0, str_int (b_sugar s) @ '' tsp sugar''),
                (b_shots s > 0, ''+'' @ str_int (b_shots s) @ '' extra shot(s)'')]))"
      unfolding d spec_description_def spec_clauses_def the by (rule refl)
  qed
next
  have ex: "b_base example = Some ''espresso''" "b_size example = Some ''medium''"
    by (simp_all add: example_def)
  from build_order[OF reachable_invariant[OF reachable_example] ex] obtain ord where
    "built example = Some ord" "o_description ord = spec_description example" by blast
  then have "map_option o_description (built example) = Some (spec_description example)"
    by simp
  then show "map_option o_description (built (calls example_calls init)) =
      Some ''medium espresso with oat milk +vanilla,caramel syrup (iced) 2 tsp sugar +1 extra shot(s)''"
    by (simp only: example_state example_description)
qed

theorem description_clauses_witness:
  "reachable example \<and> b_base example = Some ''espresso'' \<and> b_size example = Some ''medium''
   \<and> (\<exists>ord. build example = (Inr ord, example) \<and> o_description ord =
        ''medium espresso with oat milk +vanilla,caramel syrup (iced) 2 tsp sugar +1 extra shot(s)'')"
proof -
  have ex: "b_base example = Some ''espresso''" "b_size example = Some ''medium''"
    by (simp_all add: example_def)
  from description_clauses[OF reachable_example ex] obtain ord where
    o: "build example = (Inr ord, example)"
    and d: "o_description ord =
             join '' '' (map snd (filter fst
               [(True, ''medium'' @ '' '' @ ''espresso''),
                (b_milk example \<noteq> ''none'', ''with '' @ b_milk example @ '' milk''),
                (b_syrups example \<noteq> [], ''+'' @ join '','' (b_syrups example) @ '' syrup''),
                (b_iced example, ''(iced)''),
                (b_sugar example > 0, str_int (b_sugar example) @ '' tsp sugar''),
                (b_shots example > 0, ''+'' @ str_int (b_shots example) @ '' extra shot(s)'')]))"
    by blast
  have "o_description ord =
      ''medium espresso with oat milk +vanilla,caramel syrup (iced) 2 tsp sugar +1 extra shot(s)''"
    unfolding d by (simp add: example_def str_int_def)
  with o reachable_example ex show ?thesis by blast
qed

subsection \<open>Missing fields\<close>

text \<open>
  C3.  \<^verbatim>\<open>build()\<close> fails with a MissingField failure whenever base is unset, and whenever
  size is unset.  The two checks are separate and their failures differ: an unset base is
  reported as \<open>Base_required\<close>, an unset size (with base set) as \<open>Size_required\<close>.
  Whenever both are set, in a state the builder can be in, \<^verbatim>\<open>build()\<close> returns an order.
\<close>

theorem build_missing_field:
  "(b_base s = None \<longrightarrow> build s = (Inl (ValueError Base_required), s))
   \<and> (b_base s \<noteq> None \<and> b_size s = None \<longrightarrow> build s = (Inl (ValueError Size_required), s))
   \<and> (b_base s = None \<or> b_size s = None \<longrightarrow>
        (\<exists>e. fst (build s) = Inl e \<and> failure_of e = Some MissingField))
   \<and> failure_of (ValueError Base_required) = Some MissingField
   \<and> failure_of (ValueError Size_required) = Some MissingField
   \<and> ValueError Base_required \<noteq> ValueError Size_required
   \<and> (reachable s \<and> b_base s \<noteq> None \<and> b_size s \<noteq> None \<longrightarrow> (\<exists>ord. build s = (Inr ord, s)))"
proof (intro conjI impI)
  assume "b_base s = None"
  then show "build s = (Inl (ValueError Base_required), s)" by (simp add: build_run)
next
  assume "b_base s \<noteq> None \<and> b_size s = None"
  then show "build s = (Inl (ValueError Size_required), s)"
    by (auto simp: build_run split: option.splits)
next
  assume "b_base s = None \<or> b_size s = None"
  then have "fst (build s) = Inl (ValueError Base_required)
      \<or> fst (build s) = Inl (ValueError Size_required)"
    by (auto simp: build_run split: option.splits)
  then show "\<exists>e. fst (build s) = Inl e \<and> failure_of e = Some MissingField" by auto
next
  assume a: "reachable s \<and> b_base s \<noteq> None \<and> b_size s \<noteq> None"
  then obtain b z where bz: "b_base s = Some b" "b_size s = Some z" by auto
  from a have "invariant s" by (simp add: reachable_invariant)
  from build_order[OF this bz] show "\<exists>ord. build s = (Inr ord, s)" by blast
qed simp_all

theorem build_missing_field_witness:
  "build init = (Inl (ValueError Base_required), init)
   \<and> build (init\<lparr>b_base := Some ''latte''\<rparr>) =
       (Inl (ValueError Size_required), init\<lparr>b_base := Some ''latte''\<rparr>)
   \<and> build (init\<lparr>b_size := Some ''small''\<rparr>) =
       (Inl (ValueError Base_required), init\<lparr>b_size := Some ''small''\<rparr>)
   \<and> reachable example \<and> (\<exists>ord. build example = (Inr ord, example))"
  using build_missing_field[of init] build_missing_field[of "init\<lparr>b_base := Some ''latte''\<rparr>"]
    build_missing_field[of "init\<lparr>b_size := Some ''small''\<rparr>"]
    build_missing_field[of example] reachable_example
  by (simp add: init_def example_def)

subsection \<open>Failures leave the builder as it was\<close>

text \<open>
  C4.  A call of any method of the builder that fails leaves the builder in the state it had
  before the call.
\<close>

theorem failed_call_keeps_state:
  assumes "fst (call c s) = Inl e"
  shows "snd (call c s) = s"
proof (cases c)
  case Build
  then show ?thesis by (simp only: call_build_snd)
qed (use assms in \<open>auto simp: call_simps run_simps split: if_splits\<close>)

theorem failed_call_keeps_state_witness:
  "fst (call (Add_shot 4) example) = Inl (ValueError Shot_limit)
   \<and> snd (call (Add_shot 4) example) = example"
proof -
  have "fst (call (Add_shot 4) example) = Inl (ValueError Shot_limit)"
    by (simp add: call_simps run_simps example_def)
  then show ?thesis using failed_call_keeps_state[of "Add_shot 4" example] by simp
qed

subsection \<open>Syrups\<close>

text \<open>
  C6.  \<^verbatim>\<open>add_syrup(name)\<close> succeeds and changes nothing when the name is already held, also
  when four syrups are held.  Otherwise it fails with LimitExceeded when four (or more)
  syrups are held, and otherwise appends the name at the end.  Adding a name a second time
  succeeds and changes nothing, so that the name occurs once, where it was first put.
\<close>

theorem add_syrup_cases:
  "(name \<in> set (b_syrups s) \<longrightarrow> add_syrup name s = (Inr (), s))
   \<and> (name \<notin> set (b_syrups s) \<and> 4 \<le> length (b_syrups s) \<longrightarrow>
        add_syrup name s = (Inl (ValueError Syrup_limit), s))
   \<and> failure_of (ValueError Syrup_limit) = Some LimitExceeded
   \<and> (name \<notin> set (b_syrups s) \<and> length (b_syrups s) < 4 \<longrightarrow>
        add_syrup name s = (Inr (), s\<lparr>b_syrups := b_syrups s @ [name]\<rparr>))
   \<and> (fst (add_syrup name s) = Inr () \<longrightarrow>
        add_syrup name (snd (add_syrup name s)) = (Inr (), snd (add_syrup name s)))
   \<and> (fst (add_syrup name s) = Inr () \<and> distinct (b_syrups s) \<longrightarrow>
        count_list (b_syrups (snd (add_syrup name (snd (add_syrup name s))))) name = 1)"
proof -
  have once: "count_list xs name = 1" if "distinct xs" "name \<in> set xs" for xs
    using that by (induction xs) auto
  have none: "count_list xs name = 0" if "name \<notin> set xs" for xs
    using that by (induction xs) auto
  show ?thesis
    by (auto simp: add_syrup_run once none)
qed

theorem add_syrup_cases_witness:
  "add_syrup ''vanilla'' example = (Inr (), example)
   \<and> add_syrup ''mint'' (example\<lparr>b_syrups := [''a'', ''b'', ''c'', ''d'']\<rparr>) =
       (Inl (ValueError Syrup_limit), example\<lparr>b_syrups := [''a'', ''b'', ''c'', ''d'']\<rparr>)
   \<and> add_syrup ''c'' (example\<lparr>b_syrups := [''a'', ''b'', ''c'', ''d'']\<rparr>) =
       (Inr (), example\<lparr>b_syrups := [''a'', ''b'', ''c'', ''d'']\<rparr>)
   \<and> add_syrup ''mint'' example =
       (Inr (), example\<lparr>b_syrups := b_syrups example @ [''mint'']\<rparr>)
   \<and> add_syrup ''mint'' (snd (add_syrup ''mint'' example)) =
       (Inr (), snd (add_syrup ''mint'' example))"
proof -
  let ?full = "example\<lparr>b_syrups := [''a'', ''b'', ''c'', ''d'']\<rparr>"
  have 1: "''vanilla'' \<in> set (b_syrups example)" by (simp add: example_def)
  have 2: "''mint'' \<notin> set (b_syrups ?full) \<and> 4 \<le> length (b_syrups ?full)" by simp
  have 3: "''c'' \<in> set (b_syrups ?full)" by simp
  have 4: "''mint'' \<notin> set (b_syrups example) \<and> length (b_syrups example) < 4"
    by (simp add: example_def)
  have a: "add_syrup ''vanilla'' example = (Inr (), example)"
    using add_syrup_cases[of "''vanilla''" example] 1 by blast
  have b: "add_syrup ''mint'' ?full = (Inl (ValueError Syrup_limit), ?full)"
    using add_syrup_cases[of "''mint''" ?full] 2 by blast
  have c: "add_syrup ''c'' ?full = (Inr (), ?full)"
    using add_syrup_cases[of "''c''" ?full] 3 by blast
  have d: "add_syrup ''mint'' example = (Inr (), example\<lparr>b_syrups := b_syrups example @ [''mint'']\<rparr>)"
    using add_syrup_cases[of "''mint''" example] 4 by blast
  then have "fst (add_syrup ''mint'' example) = Inr ()" by simp
  then have e: "add_syrup ''mint'' (snd (add_syrup ''mint'' example)) =
       (Inr (), snd (add_syrup ''mint'' example))"
    using add_syrup_cases[of "''mint''" example] by blast
  from a b c d e show ?thesis by blast
qed

subsection \<open>Shots\<close>

text \<open>
  C7.  \<^verbatim>\<open>add_shot(count)\<close> fails with InvalidArgument when the count is negative; fails with
  LimitExceeded, leaving the total as it was, when the total plus the count exceeds 3; and
  otherwise adds the count to the total.  Two calls with the default count on a fresh
  builder give two shots, in the builder and in the order built from it.
\<close>

theorem add_shot_cases:
  "(count < 0 \<longrightarrow> add_shot count s = (Inl (ValueError Negative_shots), s))
   \<and> failure_of (ValueError Negative_shots) = Some InvalidArgument
   \<and> (0 \<le> count \<and> 3 < b_shots s + count \<longrightarrow> add_shot count s = (Inl (ValueError Shot_limit), s))
   \<and> failure_of (ValueError Shot_limit) = Some LimitExceeded
   \<and> (0 \<le> count \<and> b_shots s + count \<le> 3 \<longrightarrow>
        add_shot count s = (Inr (), s\<lparr>b_shots := b_shots s + count\<rparr>))
   \<and> (0 \<le> b_shots s \<and> b_shots s \<le> 1 \<longrightarrow>
        fst (add_shot_default s) = Inr ()
        \<and> fst (add_shot_default (snd (add_shot_default s))) = Inr ()
        \<and> b_shots (snd (add_shot_default (snd (add_shot_default s)))) = b_shots s + 2)
   \<and> b_shots (calls [Add_shot 1, Add_shot 1] init) = 2
   \<and> map_option o_extra_shots
        (built (calls [Set_base ''latte'', Set_size ''small'', Add_shot 1, Add_shot 1] init))
       = Some 2"
proof -
  have s: "calls [Set_base ''latte'', Set_size ''small'', Add_shot 1, Add_shot 1] init
      = init\<lparr>b_base := Some ''latte'', b_size := Some ''small'', b_shots := 2\<rparr>"
    by (simp add: call_simps run_simps init_def BASE_PRICES_def SIZE_MULTIPLIERS_def)
  have "reachable (calls [Set_base ''latte'', Set_size ''small'', Add_shot 1, Add_shot 1] init)"
    by (rule reachable_calls[OF reachable.fresh])
  then have "invariant (init\<lparr>b_base := Some ''latte'', b_size := Some ''small'', b_shots := 2\<rparr>)"
    unfolding s by (rule reachable_invariant)
  from build_order[OF this, of "''latte''" "''small''"] obtain ord where
    "built (init\<lparr>b_base := Some ''latte'', b_size := Some ''small'', b_shots := 2\<rparr>) = Some ord"
    "o_extra_shots ord = 2" by auto
  then have b: "map_option o_extra_shots
        (built (calls [Set_base ''latte'', Set_size ''small'', Add_shot 1, Add_shot 1] init))
       = Some 2" unfolding s by simp
  have c: "b_shots (calls [Add_shot 1, Add_shot 1] init) = 2"
    by (simp add: call_simps run_simps init_def)
  show ?thesis
    by (intro conjI impI b c) (simp_all add: add_shot_run add_shot_default_def)
qed

theorem add_shot_cases_witness:
  "add_shot (- 1) example = (Inl (ValueError Negative_shots), example)
   \<and> add_shot 3 example = (Inl (ValueError Shot_limit), example)
   \<and> add_shot 2 example = (Inr (), example\<lparr>b_shots := 3\<rparr>)
   \<and> b_shots (snd (add_shot_default (snd (add_shot_default example)))) = 3"
  using add_shot_cases[of "- 1" example] add_shot_cases[of 3 example]
    add_shot_cases[of 2 example] add_shot_cases[of 0 example]
  by (simp add: example_def)

subsection \<open>Syrup names are not checked\<close>

text \<open>
  C10.  \<^verbatim>\<open>add_syrup\<close> checks its name against no catalog: for no name and no state does it
  fail with InvalidChoice, and it appends any name, the empty one too, that is not yet held
  while fewer than four syrups are held.
\<close>

theorem add_syrup_unchecked:
  "(\<forall>e. fst (add_syrup name s) = Inl e \<longrightarrow> failure_of e \<noteq> Some InvalidChoice)
   \<and> (name \<notin> set (b_syrups s) \<and> length (b_syrups s) < 4 \<longrightarrow>
        add_syrup name s = (Inr (), s\<lparr>b_syrups := b_syrups s @ [name]\<rparr>))"
  by (auto simp: add_syrup_run split: if_splits)

theorem add_syrup_unchecked_witness:
  "add_syrup '''' example = (Inr (), example\<lparr>b_syrups := [''vanilla'', ''caramel'', '''']\<rparr>)
   \<and> fst (add_syrup ''no such syrup'' (example\<lparr>b_syrups := [''a'', ''b'', ''c'', ''d'']\<rparr>))
       = Inl (ValueError Syrup_limit)
   \<and> failure_of (ValueError Syrup_limit) \<noteq> Some InvalidChoice"
proof -
  have 1: "fst (add_syrup ''no such syrup'' (example\<lparr>b_syrups := [''a'', ''b'', ''c'', ''d'']\<rparr>))
       = Inl (ValueError Syrup_limit)"
    by (simp add: add_syrup_run)
  show ?thesis
    using add_syrup_unchecked[of "''''" example] 1
      add_syrup_unchecked[of "''no such syrup''" "example\<lparr>b_syrups := [''a'', ''b'', ''c'', ''d'']\<rparr>"]
    by (simp add: example_def)
qed

subsection \<open>Bounds\<close>

text \<open>
  C8.  Every state that a fresh builder reaches by calls, successful or failing, holds
  pairwise distinct syrups, at most four of them, between 0 and 5 teaspoons of sugar and
  between 0 and 3 shots.  Every order built in such a state satisfies the same bounds and
  its price is not negative.
\<close>

theorem reachable_bounds:
  assumes "reachable s"
  shows "bounds (b_syrups s) (b_sugar s) (b_shots s)
         \<and> (\<forall>ord. fst (build s) = Inr ord \<longrightarrow>
               bounds (o_syrups ord) (o_sugar ord) (o_extra_shots ord) \<and> 0 \<le> o_price ord)"
proof (intro conjI allI impI)
  have inv: "invariant s" by (rule reachable_invariant[OF assms])
  then show bnd: "bounds (b_syrups s) (b_sugar s) (b_shots s)" by (simp add: invariant_def)
  fix ord assume b: "fst (build s) = Inr ord"
  then obtain b' z where bz: "b_base s = Some b'" "b_size s = Some z"
    by (auto simp: build_run split: option.splits)
  from build_order[OF inv bz] obtain ord' where
    o: "build s = (Inr ord', s)" "o_syrups ord' = b_syrups s" "o_sugar ord' = b_sugar s"
      "o_extra_shots ord' = b_shots s" "o_price ord' = rne (spec_price s)" by blast
  from b o(1) have "ord = ord'" by simp
  then show "bounds (o_syrups ord) (o_sugar ord) (o_extra_shots ord)" using bnd o by simp
  show "0 \<le> o_price ord" using price_nonneg[OF inv bz] o(5) \<open>ord = ord'\<close> by simp
qed

theorem reachable_bounds_witness:
  "reachable (calls (example_calls @ [Add_syrup ''vanilla'', Add_shot 5, Set_sugar 9, Build]) init)
   \<and> bounds [''vanilla'', ''caramel''] 2 1
   \<and> (\<exists>ord. fst (build example) = Inr ord
         \<and> bounds (o_syrups ord) (o_sugar ord) (o_extra_shots ord) \<and> 0 \<le> o_price ord)"
proof -
  have s: "calls (example_calls @ [Add_syrup ''vanilla'', Add_shot 5, Set_sugar 9, Build]) init
      = example"
    by (simp add: example_calls_def init_def example_def call_simps run_simps DEFAULT_MILK_def
      BASE_PRICES_def SIZE_MULTIPLIERS_def MILK_SURCHARGES_def)
  have r: "reachable (calls (example_calls @ [Add_syrup ''vanilla'', Add_shot 5, Set_sugar 9, Build]) init)"
    by (rule reachable_calls[OF reachable.fresh])
  have ex: "b_base example = Some ''espresso''" "b_size example = Some ''medium''"
    by (simp_all add: example_def)
  from build_order[OF reachable_invariant[OF reachable_example] ex] obtain ord where
    "build example = (Inr ord, example)" by blast
  then have o: "fst (build example) = Inr ord" by simp
  note t = reachable_bounds[OF r, unfolded s]
  from t have 1: "bounds [''vanilla'', ''caramel''] 2 1" by (simp add: example_def)
  from t o have 2: "bounds (o_syrups ord) (o_sugar ord) (o_extra_shots ord) \<and> 0 \<le> o_price ord"
    by blast
  from r 1 2 o show ?thesis by blast
qed

subsection \<open>The iced surcharge\<close>

text \<open>
  C9, as stated, fails for a large cappuccino without extras: the hot order costs 448.0 and
  the iced one 537.6, the double nearest to 537.6.  Their difference, which the subtraction
  of floats computes exactly, is neither 20 percent of 320 times 1.4 (89.6, which no double
  equals), nor the double nearest to 89.6, nor the surcharge that the builder itself
  computes, \<^verbatim>\<open>base_cost * ICED_RATE\<close>.
\<close>

theorem iced_difference_counterexample:
  "reachable (cappuccino_large False) \<and> reachable (cappuccino_large True)
   \<and> map_option o_price (built (cappuccino_large False)) = Some 448
   \<and> map_option o_price (built (cappuccino_large True)) = Some (4728779608739021 / 8796093022208)
   \<and> fsub (4728779608739021 / 8796093022208) 448 = 4728779608739021 / 8796093022208 - 448
   \<and> 4728779608739021 / 8796093022208 - 448
       \<noteq> (20 / 100) * (basePrice ''cappuccino'' * sizeMultiplier ''large'')
   \<and> 4728779608739021 / 8796093022208 - 448
       \<noteq> rne ((20 / 100) * (basePrice ''cappuccino'' * sizeMultiplier ''large''))
   \<and> 4728779608739021 / 8796093022208 - 448
       \<noteq> fmul (fmul (float_lit 3200 1) (float_lit 14 1)) ICED_RATE"
proof -
  have 1: "fsub (4728779608739021 / 8796093022208) 448 = 4728779608739021 / 8796093022208 - 448"
    by (simp add: cappuccino_large_difference)
  have 2: "4728779608739021 / 8796093022208 - 448
       \<noteq> (20 / 100) * (basePrice ''cappuccino'' * sizeMultiplier ''large'')"
    by (simp add: basePrice_def sizeMultiplier_def)
  have "(20 / 100) * (basePrice ''cappuccino'' * sizeMultiplier ''large'') = 448 / 5"
    by (simp add: basePrice_def sizeMultiplier_def)
  then have 3: "4728779608739021 / 8796093022208 - 448
       \<noteq> rne ((20 / 100) * (basePrice ''cappuccino'' * sizeMultiplier ''large''))"
    by (simp only: rne_896)
  have 4: "4728779608739021 / 8796093022208 - 448
       \<noteq> fmul (fmul (float_lit 3200 1) (float_lit 14 1)) ICED_RATE"
    by (simp only: cappuccino_large_surcharge)
  show ?thesis
    by (intro conjI cappuccino_large_reachable cappuccino_large_prices 1 2 3 4)
qed

text \<open>
  C9, amended.  For two states that a builder with base and size set can be in and that
  differ in the iced flag only, the iced order costs strictly more; its price is the double
  nearest to the price of the other order plus 20 percent of base price times size
  multiplier, so that the difference is 20 percent of the base cost up to \<open>1 / 2 ^ 43\<close>, and
  exactly that whenever the 20 percent are a whole number.
\<close>

theorem iced_surcharge:
  assumes "reachable s" "b_base s = Some b" "b_size s = Some z"
  shows "\<exists>hot iced.
           built (s\<lparr>b_iced := False\<rparr>) = Some hot \<and> built (s\<lparr>b_iced := True\<rparr>) = Some iced
         \<and> o_price hot < o_price iced
         \<and> o_price iced = rne (o_price hot + (20 / 100) * (basePrice b * sizeMultiplier z))
         \<and> \<bar>o_price iced - o_price hot - (20 / 100) * (basePrice b * sizeMultiplier z)\<bar>
             \<le> 1 / 2 ^ 43
         \<and> ((\<exists>k::int. (20 / 100) * (basePrice b * sizeMultiplier z) = of_int k) \<longrightarrow>
               o_price iced - o_price hot = (20 / 100) * (basePrice b * sizeMultiplier z))"
proof -
  have inv: "invariant s" by (rule reachable_invariant[OF assms(1)])
  show ?thesis
  proof (rule iced_pair[OF inv assms(2,3)])
    fix hot iced and N S :: int
    assume b: "built (s\<lparr>b_iced := False\<rparr>) = Some hot" "built (s\<lparr>b_iced := True\<rparr>) = Some iced"
      and h: "o_price hot = of_int S" and i: "o_price iced = rne (of_int S + of_int N / 5)"
      and bc: "basePrice b * sizeMultiplier z = of_int N"
      and N: "200 \<le> N" "N \<le> 448" "N \<le> S" "S \<le> 878"
    define x :: rat where "x = of_int S + of_int N / 5"
    have sur: "(20 / 100) * (basePrice b * sizeMultiplier z) = of_int N / 5"
      unfolding bc by simp
    have n: "(200::rat) \<le> of_int N" "(of_int N :: rat) \<le> 448" "(of_int N :: rat) \<le> of_int S"
      "(of_int S :: rat) \<le> 878"
      using N by simp_all
    have xd: "x = of_int S + of_int N / 5" by (rule x_def)
    have x0: "0 \<le> x" using n xd by linarith
    have p: "(2::rat) ^ 53 = 9007199254740992" "(2::rat) ^ 43 = 8796093022208" by simp_all
    note e = rne_error_bounds[OF x0, unfolded p]
    have "x \<le> 1024" using n xd by linarith
    then have small: "x / 9007199254740992 \<le> 1 / 8796093022208" by simp
    have "of_int S < rne x" using e(1) small n xd by linarith
    then have 1: "o_price hot < o_price iced" by (simp only: h i xd)
    have 2: "o_price iced = rne (o_price hot + (20 / 100) * (basePrice b * sizeMultiplier z))"
      by (simp only: h i sur)
    have "rne x - x \<le> 1 / 8796093022208" using e(2) small by linarith
    moreover have "- (rne x - x) \<le> 1 / 8796093022208" using e(1) small by linarith
    ultimately have "\<bar>rne x - x\<bar> \<le> 1 / 8796093022208" by (simp only: abs_le_iff)
    moreover have "o_price iced - o_price hot - (20 / 100) * (basePrice b * sizeMultiplier z)
        = rne x - x"
      by (simp only: h i sur xd)
    ultimately have 3:
      "\<bar>o_price iced - o_price hot - (20 / 100) * (basePrice b * sizeMultiplier z)\<bar>
             \<le> 1 / 2 ^ 43"
      by (simp only: p)
    have 4: "o_price iced - o_price hot = (20 / 100) * (basePrice b * sizeMultiplier z)"
      if "\<exists>k::int. (20 / 100) * (basePrice b * sizeMultiplier z) = of_int k"
    proof -
      from that obtain k :: int where "(20 / 100) * (basePrice b * sizeMultiplier z) = of_int k" ..
      then have k: "(of_int N / 5 :: rat) = of_int k" by (simp only: sur)
      have "(of_int k :: rat) \<le> of_int N" using k n by linarith
      then have "k \<le> N" by (simp only: of_int_le_iff)
      moreover have "(0 :: rat) \<le> of_int k" using k n by linarith
      then have "0 \<le> k" by simp
      ultimately have "\<bar>S + k\<bar> < 2 ^ 53" using N by simp
      then have "rne (of_int (S + k)) = of_int (S + k)" by (rule rne_of_int)
      then have "rne (of_int S + of_int k) = of_int S + of_int k" by (simp only: of_int_add)
      then have "o_price iced = of_int S + of_int k" by (simp only: i k)
      then have "o_price iced - o_price hot = of_int k" by (simp only: h add_diff_cancel_left')
      then show ?thesis by (simp only: sur k)
    qed
    show ?thesis
      by (intro exI[of _ hot] exI[of _ iced] conjI impI b 1 2 3 4)
  qed
qed

theorem iced_surcharge_witness:
  "reachable example \<and> b_base example = Some ''espresso'' \<and> b_size example = Some ''medium''
   \<and> (20 / 100) * (basePrice ''espresso'' * sizeMultiplier ''medium'') = of_int 48
   \<and> (\<exists>hot iced. built (example\<lparr>b_iced := False\<rparr>) = Some hot
         \<and> built (example\<lparr>b_iced := True\<rparr>) = Some iced
         \<and> o_price hot < o_price iced \<and> o_price iced - o_price hot = 48)"
proof -
  have ex: "b_base example = Some ''espresso''" "b_size example = Some ''medium''"
    by (simp_all add: example_def)
  have k: "(20 / 100) * (basePrice ''espresso'' * sizeMultiplier ''medium'') = of_int 48"
    by (simp add: basePrice_def sizeMultiplier_def)
  then have "\<exists>k::int. (20 / 100) * (basePrice ''espresso'' * sizeMultiplier ''medium'') = of_int k"
    by (rule exI)
  with iced_surcharge[OF reachable_example ex] obtain hot iced where
    "built (example\<lparr>b_iced := False\<rparr>) = Some hot" "built (example\<lparr>b_iced := True\<rparr>) = Some iced"
    "o_price hot < o_price iced"
    "o_price iced - o_price hot = (20 / 100) * (basePrice ''espresso'' * sizeMultiplier ''medium'')"
    by blast
  then have "\<exists>hot iced. built (example\<lparr>b_iced := False\<rparr>) = Some hot
         \<and> built (example\<lparr>b_iced := True\<rparr>) = Some iced
         \<and> o_price hot < o_price iced \<and> o_price iced - o_price hot = 48"
    unfolding k by auto
  with reachable_example ex k show ?thesis by blast
qed

subsection \<open>Reuse of the builder\<close>

text \<open>
  C5.  \<^verbatim>\<open>build()\<close> never changes the builder, in any state.  In a state that a builder
  with base and size set can be in, two builds in a row return references to two distinct
  objects with equal fields.  After any call between two builds, the first order is still
  what it was, the second build returns a new object, and the second order differs from
  the first at most in the fields that the call affects.
\<close>

theorem build_reuse:
  assumes "reachable (builder w)" "b_base (builder w) \<noteq> None" "b_size (builder w) \<noteq> None"
  shows "snd (build s) = s
       \<and> builder (after Build w) = builder w
       \<and> (\<exists>first. fst (run Build w) = Inr (Order_ref (length (store w)))
             \<and> fst (run Build (after Build w)) = Inr (Order_ref (length (store w) + 1))
             \<and> store (after Build (after Build w)) = store w @ [first, first])
       \<and> (\<exists>first second.
               fst (run Build (after c (after Build w)))
                 = Inr (Order_ref (length (store (after c (after Build w)))))
             \<and> length (store w) < length (store (after c (after Build w)))
             \<and> store (after Build w) ! length (store w) = first
             \<and> store (after Build (after c (after Build w))) ! length (store w) = first
             \<and> store (after Build (after c (after Build w)))
                   ! length (store (after c (after Build w))) = second
             \<and> only_affected c first second)"
proof -
  obtain b z where bz: "b_base (builder w) = Some b" "b_size (builder w) = Some z"
    using assms(2,3) by auto
  have inv: "invariant (builder w)" by (rule reachable_invariant[OF assms(1)])
  from build_order[OF inv bz] obtain first where first: "built (builder w) = Some first" by blast
  define w1 where "w1 = \<lparr>builder = builder w, store = store w @ [first]\<rparr>"
  have r1: "run Build w = (Inr (Order_ref (length (store w))), w1)"
    unfolding w1_def by (rule run_build[OF first])
  have a1: "after Build w = w1" by (simp add: after_def r1)
  have first1: "built (builder w1) = Some first" by (simp add: w1_def first)
  have r2: "run Build w1 = (Inr (Order_ref (length (store w) + 1)),
      \<lparr>builder = builder w, store = store w @ [first, first]\<rparr>)"
    using run_build[OF first1] by (simp add: w1_def)
  have A: "snd (build s) = s" by (rule build_state)
  have B: "builder (after Build w) = builder w" by (simp add: a1 w1_def)
  have C: "\<exists>first. fst (run Build w) = Inr (Order_ref (length (store w)))
             \<and> fst (run Build (after Build w)) = Inr (Order_ref (length (store w) + 1))
             \<and> store (after Build (after Build w)) = store w @ [first, first]"
    by (rule exI[of _ first]) (simp add: a1 r1 r2 after_def)
  define w2 where "w2 = after c w1"
  have b2: "builder w2 = snd (call c (builder w))"
    unfolding w2_def run_builder by (simp add: w1_def)
  have inv2: "invariant (builder w2)" unfolding b2 by (rule call_invariant[OF inv])
  have "b_base (builder w2) \<noteq> None" "b_size (builder w2) \<noteq> None"
    unfolding b2 using bz by (simp_all add: call_keeps_base call_keeps_size)
  then obtain b' z' where bz2: "b_base (builder w2) = Some b'" "b_size (builder w2) = Some z'"
    by auto
  from build_order[OF inv2 bz2] obtain second where
    second: "built (builder w2) = Some second" by blast
  from run_store[of c w1] obtain xs where xs: "store w2 = store w @ first # xs"
    by (auto simp: w2_def w1_def)
  have r3: "run Build w2 = (Inr (Order_ref (length (store w2))),
      \<lparr>builder = builder w2, store = store w2 @ [second]\<rparr>)"
    by (rule run_build[OF second])
  have D1: "fst (run Build w2) = Inr (Order_ref (length (store w2)))" by (simp add: r3)
  have D2: "length (store w) < length (store w2)" by (simp add: xs)
  have D3: "store w1 ! length (store w) = first" by (simp add: w1_def)
  have D4: "store (after Build w2) ! length (store w) = first"
    by (simp add: after_def r3 xs nth_append)
  have D5: "store (after Build w2) ! length (store w2) = second"
    by (simp add: after_def r3)
  have D6: "only_affected c first second"
    by (rule second_order[OF inv bz first second[unfolded b2]])
  have D: "\<exists>first second.
               fst (run Build (after c (after Build w)))
                 = Inr (Order_ref (length (store (after c (after Build w)))))
             \<and> length (store w) < length (store (after c (after Build w)))
             \<and> store (after Build w) ! length (store w) = first
             \<and> store (after Build (after c (after Build w))) ! length (store w) = first
             \<and> store (after Build (after c (after Build w)))
                   ! length (store (after c (after Build w))) = second
             \<and> only_affected c first second"
    unfolding a1 w2_def[symmetric]
    by (intro exI[of _ first] exI[of _ second] conjI D1 D2 D3 D4 D5 D6)
  from A B C D show ?thesis by (intro conjI)
qed

theorem build_reuse_witness:
  "reachable example \<and> b_base example \<noteq> None \<and> b_size example \<noteq> None
   \<and> builder (after Build \<lparr>builder = example, store = []\<rparr>) = example
   \<and> fst (run Build \<lparr>builder = example, store = []\<rparr>) = Inr (Order_ref 0)
   \<and> fst (run Build (after Build \<lparr>builder = example, store = []\<rparr>)) = Inr (Order_ref 1)
   \<and> (\<exists>first second.
         store (after Build \<lparr>builder = example, store = []\<rparr>) ! 0 = first
       \<and> store (after Build (after (Set_milk ''soy'')
            (after Build \<lparr>builder = example, store = []\<rparr>))) ! 0 = first
       \<and> store (after Build (after (Set_milk ''soy'')
            (after Build \<lparr>builder = example, store = []\<rparr>)))
           ! length (store (after (Set_milk ''soy'')
               (after Build \<lparr>builder = example, store = []\<rparr>))) = second
       \<and> second = first\<lparr>o_milk := o_milk second, o_price := o_price second,
                          o_description := o_description second\<rparr>)"
proof -
  let ?w = "\<lparr>builder = example, store = []\<rparr>"
  have e: "b_base example \<noteq> None" "b_size example \<noteq> None" by (simp_all add: example_def)
  have h: "reachable (builder ?w)" "b_base (builder ?w) \<noteq> None" "b_size (builder ?w) \<noteq> None"
    using reachable_example e by simp_all
  note t = build_reuse[OF h, of example "Set_milk ''soy''"]
  from t have 1: "builder (after Build ?w) = example" by simp
  from t have 2: "fst (run Build ?w) = Inr (Order_ref 0)"
    "fst (run Build (after Build ?w)) = Inr (Order_ref 1)" by auto
  from t obtain first second where
    f: "store (after Build ?w) ! 0 = first"
      "store (after Build (after (Set_milk ''soy'') (after Build ?w))) ! 0 = first"
      "store (after Build (after (Set_milk ''soy'') (after Build ?w)))
         ! length (store (after (Set_milk ''soy'') (after Build ?w))) = second"
      "only_affected (Set_milk ''soy'') first second"
    by auto
  have 3: "second = first\<lparr>o_milk := o_milk second, o_price := o_price second,
                          o_description := o_description second\<rparr>"
    using f(4) by (simp add: only_affected_def)
  show ?thesis
    by (intro conjI exI[of _ first] exI[of _ second] reachable_example e 1 2 f(1,2,3) 3)
qed


end
